theory Spec2Isabelle
  imports Main "HOL-Library.AList"
begin

section \<open>Python values, exceptions and dictionaries\<close>

text \<open>
  The values that reach \<open>Field\<close> and \<open>FieldInfo\<close> are untyped Python objects: the
  annotations of the source (\<open>Optional[Any]\<close>, \<open>bool\<close>, \<open>Dict[str, Any]\<close>) are not
  enforced at run time. A dictionary is an association list in insertion order, its keys
  arbitrary values.
\<close>

datatype pyval =
    PyNone
  | PyBool bool
  | PyInt int
  | PyStr string
  | PyList "pyval list"
  | PyDict "(pyval \<times> pyval) list"

text \<open>Truth value of an object, as \<open>if x:\<close> tests it.\<close>

fun truthy :: "pyval \<Rightarrow> bool" where
  "truthy PyNone = False"
| "truthy (PyBool b) = b"
| "truthy (PyInt i) = (i \<noteq> 0)"
| "truthy (PyStr s) = (s \<noteq> [])"
| "truthy (PyList xs) = (xs \<noteq> [])"
| "truthy (PyDict d) = (d \<noteq> [])"

text \<open>\<open>isinstance(x, dict)\<close>.\<close>

fun is_dict :: "pyval \<Rightarrow> bool" where
  "is_dict (PyDict d) = True"
| "is_dict v = False"

datatype exn =
    SchemaInitError string
  | TypeError string
  | OtherError string

text \<open>Keyword arguments: names with values, in the order the caller wrote them.\<close>

type_synonym kwargs = "(string \<times> pyval) list"

text \<open>
  A call of a check constructor: its positional arguments and its named arguments. A
  constructor is a callable of the external check library; it returns a check object
  (of an opaque type \<open>'c\<close>) or raises.
\<close>

type_synonym call = "pyval list \<times> kwargs"
type_synonym 'c constructor = "call \<Rightarrow> exn + 'c"

text \<open>One constructor invocation made by \<open>Field\<close>: the keyword it was made for, and the call.\<close>

type_synonym invocation = "string \<times> call"

text \<open>\<open>d.get(k, default)\<close> on a dictionary with string keys.\<close>

definition dict_get :: "(string \<times> 'v) list \<Rightarrow> string \<Rightarrow> 'v \<Rightarrow> 'v" where
  "dict_get d k dflt = (case map_of d k of Some v \<Rightarrow> v | None \<Rightarrow> dflt)"

text \<open>
  \<open>{**d, **e}\<close>: the entries of \<open>e\<close> are stored into \<open>d\<close> one by one; a key already
  present keeps its position and takes the new value, a new key goes to the end.
\<close>

definition dict_update :: "(string \<times> 'v) list \<Rightarrow> (string \<times> 'v) list \<Rightarrow> (string \<times> 'v) list" where
  "dict_update d e = foldl (\<lambda>acc (k, v). AList.update k v acc) d e"

text \<open>
  \<open>f(**d, **ck)\<close>: every key of \<open>d\<close> must be a string, and no key may be given twice;
  otherwise the call raises \<open>TypeError\<close> and \<open>f\<close> is not entered.
\<close>

fun str_keys :: "(pyval \<times> pyval) list \<Rightarrow> kwargs option" where
  "str_keys [] = Some []"
| "str_keys ((PyStr k, v) # rest) = map_option (Cons (k, v)) (str_keys rest)"
| "str_keys (other # rest) = None"

definition merge_kwargs :: "(pyval \<times> pyval) list \<Rightarrow> kwargs \<Rightarrow> exn + kwargs" where
  "merge_kwargs d ck =
     (case str_keys d of
        None \<Rightarrow> Inl (TypeError ''keywords must be strings'')
      | Some named \<Rightarrow>
          if distinct (map fst (named @ ck)) then Inr (named @ ck)
          else Inl (TypeError ''got multiple values for keyword argument''))"

section \<open>The check library and the custom-check registry\<close>

text \<open>
  The class \<open>Check\<close> (module \<open>pandera.api.checks\<close>) is used by the source through its
  sixteen built-in constructors and through the table \<open>Check.REGISTERED_CUSTOM_CHECKS\<close>.
  Both are parameters here: any constructors, any registry contents.
\<close>

datatype check_method =
    Check_equal_to
  | Check_not_equal_to
  | Check_greater_than
  | Check_greater_than_or_equal_to
  | Check_less_than
  | Check_less_than_or_equal_to
  | Check_in_range
  | Check_between
  | Check_isin
  | Check_notin
  | Check_str_contains
  | Check_str_endswith
  | Check_str_matches
  | Check_str_length
  | Check_str_startswith
  | Check_unique_values_eq

record 'c Check =
  classmethod :: "check_method \<Rightarrow> 'c constructor"
  REGISTERED_CUSTOM_CHECKS :: "(string \<times> 'c constructor) list"

text \<open>The keys of the dictionary literal of \<open>_check_dispatch\<close>, in the order written.\<close>

definition fixed_constraints :: "(string \<times> check_method) list" where
  "fixed_constraints =
     [(''eq'', Check_equal_to),
      (''ne'', Check_not_equal_to),
      (''gt'', Check_greater_than),
      (''ge'', Check_greater_than_or_equal_to),
      (''lt'', Check_less_than),
      (''le'', Check_less_than_or_equal_to),
      (''in_range'', Check_in_range),
      (''between'', Check_between),
      (''isin'', Check_isin),
      (''notin'', Check_notin),
      (''str_contains'', Check_str_contains),
      (''str_endswith'', Check_str_endswith),
      (''str_matches'', Check_str_matches),
      (''str_length'', Check_str_length),
      (''str_startswith'', Check_str_startswith),
      (''unique_values_eq'', Check_unique_values_eq)]"

definition fixed_names :: "string list" where
  "fixed_names = map fst fixed_constraints"

text \<open>\<open>_check_dispatch()\<close>, reading the class as it is at the time of the call.\<close>

definition check_dispatch :: "'c Check \<Rightarrow> (string \<times> 'c constructor) list" where
  "check_dispatch C =
     dict_update (map (\<lambda>(k, m). (k, classmethod C m)) fixed_constraints)
       (REGISTERED_CUSTOM_CHECKS C)"

section \<open>The field descriptor\<close>

text \<open>
  Modelled from the spec: \<open>BaseFieldInfo.__init__\<close>
  (\<open>pandera.api.dataframe.model_components\<close>) is not part of the source at hand. Following
  section 3 of the specification, the descriptor holds the properties it was constructed
  with; \<open>original_name\<close> is assigned later by the schema-model layer and is \<open>None\<close> until
  then. \<open>FieldInfo.__init__\<close> adds \<open>return_expresion\<close>.
\<close>

record 'c FieldInfo =
  checks :: "'c list option"
  nullable :: pyval
  unique :: pyval
  coerce :: pyval
  regex :: pyval
  check_name :: pyval
  "alias" :: pyval
  "title" :: pyval
  "description" :: pyval
  default_value :: pyval
  dtype_kwargs :: pyval
  metadata :: pyval
  return_expresion :: pyval
  original_name :: pyval

subsection \<open>Name resolution\<close>

text \<open>
  The property returns a string or a polars expression. \<open>col\<close> is the column selector of
  the query engine, an external callable. \<open>"^" + x + "$"\<close> raises unless \<open>x\<close> is a string.
  The property is modelled as a step on the object: it returns the object after the
  access together with the outcome.
\<close>

datatype 'e name_value = Name pyval | Selector 'e

definition anchor :: "pyval \<Rightarrow> exn + pyval" where
  "anchor return_name =
     (case return_name of
        PyStr s \<Rightarrow> Inr (PyStr (''^'' @ s @ ''$''))
      | other \<Rightarrow> Inl (TypeError ''can only concatenate str to str''))"

definition name :: "(pyval \<Rightarrow> exn + 'e) \<Rightarrow> 'c FieldInfo \<Rightarrow> 'c FieldInfo \<times> (exn + 'e name_value)" where
  "name col self =
     (let return_name = original_name self;
          return_name = (if alias self \<noteq> PyNone then alias self else return_name)
      in if truthy (return_expresion self) then
           (case (if truthy (regex self) then anchor return_name else Inr return_name) of
              Inl e \<Rightarrow> (self, Inl e)
            | Inr return_name \<Rightarrow>
                (case col return_name of
                   Inl e \<Rightarrow> (self, Inl e)
                 | Inr expr \<Rightarrow> (self, Inr (Selector expr))))
         else (self, Inr (Name return_name)))"

subsection \<open>Constraint compilation\<close>

text \<open>The declared keyword-only parameters of \<open>Field\<close> with their defaults.\<close>

definition Field_params :: "(string \<times> pyval) list" where
  "Field_params =
     [(''eq'', PyNone), (''ne'', PyNone), (''gt'', PyNone), (''ge'', PyNone),
      (''lt'', PyNone), (''le'', PyNone), (''in_range'', PyNone), (''isin'', PyNone),
      (''notin'', PyNone), (''str_contains'', PyNone), (''str_endswith'', PyNone),
      (''str_length'', PyNone), (''str_matches'', PyNone), (''str_startswith'', PyNone),
      (''nullable'', PyBool False), (''unique'', PyBool False), (''coerce'', PyBool False),
      (''regex'', PyBool False), (''ignore_na'', PyBool True),
      (''raise_warning'', PyBool False), (''n_failure_cases'', PyNone),
      (''alias'', PyNone), (''check_name'', PyNone), (''dtype_kwargs'', PyNone),
      (''title'', PyNone), (''description'', PyNone), (''default'', PyNone),
      (''metadata'', PyNone), (''return_expresion'', PyBool False)]"

definition param_names :: "string list" where
  "param_names = map fst Field_params"

text \<open>
  Binding of a call \<open>Field(k1=v1, ...)\<close>: a declared parameter takes the caller's value or
  its default; the keywords that are not declared parameters are collected, in the
  caller's order, in \<open>kwargs\<close>.
\<close>

definition bind_params :: "kwargs \<Rightarrow> kwargs" where
  "bind_params kws = map (\<lambda>(p, dflt). (p, dict_get kws p dflt)) Field_params"

definition kwargs_of :: "kwargs \<Rightarrow> kwargs" where
  "kwargs_of kws = filter (\<lambda>(k, v). k \<notin> set param_names) kws"

definition py_items :: "kwargs \<Rightarrow> (pyval \<times> pyval) list" where
  "py_items d = map (\<lambda>(k, v). (PyStr k, v)) d"

definition check_kwargs_of :: "kwargs \<Rightarrow> kwargs" where
  "check_kwargs_of params =
     [(''ignore_na'', dict_get params ''ignore_na'' PyNone),
      (''raise_warning'', dict_get params ''raise_warning'' PyNone),
      (''n_failure_cases'', dict_get params ''n_failure_cases'' PyNone)]"

text \<open>\<open>check_kwargs\<close>, the shared options of a call.\<close>

definition shared_options :: "kwargs \<Rightarrow> kwargs" where
  "shared_options kws = check_kwargs_of (bind_params kws)"

text \<open>
  \<open>args = locals()\<close>, taken after \<open>check_kwargs\<close> is assigned: the declared parameters,
  \<open>kwargs\<close> and \<open>check_kwargs\<close>.
\<close>

definition locals_of :: "kwargs \<Rightarrow> kwargs" where
  "locals_of kws =
     bind_params kws @
       [(''kwargs'', PyDict (py_items (kwargs_of kws))),
        (''check_kwargs'', PyDict (py_items (shared_options kws)))]"

definition unknown_check_message :: "string \<Rightarrow> string" where
  "unknown_check_message key =
     ''custom check '' @ [CHR 0x27] @ key @ [CHR 0x27] @
     '' is not available. Make sure you use '' @
     ''pandera.extensions.register_check_method decorator to '' @
     ''register your custom check method.''"

text \<open>The first loop: \<open>for key in kwargs: if key not in check_dispatch: raise ...\<close>.\<close>

fun validate_kwargs :: "(string \<times> 'f) list \<Rightarrow> kwargs \<Rightarrow> exn option" where
  "validate_kwargs dispatch [] = None"
| "validate_kwargs dispatch ((key, v) # rest) =
     (if key \<notin> set (map fst dispatch)
      then Some (SchemaInitError (unknown_check_message key))
      else validate_kwargs dispatch rest)"

text \<open>\<open>args.get(arg_name, kwargs.get(arg_name))\<close>.\<close>

definition arg_value_of :: "kwargs \<Rightarrow> kwargs \<Rightarrow> string \<Rightarrow> pyval" where
  "arg_value_of args kwargs arg_name = dict_get args arg_name (dict_get kwargs arg_name PyNone)"

text \<open>
  The arguments of the constructor call: a dictionary is unpacked into named arguments
  in front of the shared options, any other value is passed as the one positional
  argument.
\<close>

definition call_of :: "pyval \<Rightarrow> kwargs \<Rightarrow> exn + call" where
  "call_of arg_value check_kwargs =
     (case arg_value of
        PyDict d \<Rightarrow>
          (case merge_kwargs d check_kwargs of
             Inl e \<Rightarrow> Inl e
           | Inr named \<Rightarrow> Inr ([], named))
      | other \<Rightarrow> Inr ([arg_value], check_kwargs))"

text \<open>
  The second loop, over \<open>check_dispatch.items()\<close>. The state is the list of constructor
  invocations made so far and the list \<open>checks\<close>; an exception ends the loop.
\<close>

fun dispatch_loop ::
  "(string \<times> 'c constructor) list \<Rightarrow> kwargs \<Rightarrow> kwargs \<Rightarrow> kwargs \<Rightarrow>
     invocation list \<Rightarrow> 'c list \<Rightarrow> invocation list \<times> (exn + 'c list)" where
  "dispatch_loop [] args kwargs check_kwargs tr checks' = (tr, Inr checks')"
| "dispatch_loop ((arg_name, check_constructor) # items) args kwargs check_kwargs tr checks' =
     (let arg_value = arg_value_of args kwargs arg_name in
      if arg_value = PyNone then dispatch_loop items args kwargs check_kwargs tr checks'
      else
        (case call_of arg_value check_kwargs of
           Inl e \<Rightarrow> (tr, Inl e)
         | Inr c \<Rightarrow>
             (case check_constructor c of
                Inl e \<Rightarrow> (tr @ [(arg_name, c)], Inl e)
              | Inr check \<Rightarrow>
                  dispatch_loop items args kwargs check_kwargs
                    (tr @ [(arg_name, c)]) (checks' @ [check]))))"

text \<open>
  The \<open>return\<close> statement: \<open>FieldInfo(checks=checks or None, nullable=nullable, ...)\<close>,
  reading the local variables. \<open>checks or None\<close> turns the empty list into \<open>None\<close>.
\<close>

definition FieldInfo_init :: "kwargs \<Rightarrow> 'c list \<Rightarrow> 'c FieldInfo" where
  "FieldInfo_init args checks' =
     \<lparr>checks = (if checks' = [] then None else Some checks'),
      nullable = dict_get args ''nullable'' PyNone,
      unique = dict_get args ''unique'' PyNone,
      coerce = dict_get args ''coerce'' PyNone,
      regex = dict_get args ''regex'' PyNone,
      check_name = dict_get args ''check_name'' PyNone,
      alias = dict_get args ''alias'' PyNone,
      title = dict_get args ''title'' PyNone,
      description = dict_get args ''description'' PyNone,
      default_value = dict_get args ''default'' PyNone,
      dtype_kwargs = dict_get args ''dtype_kwargs'' PyNone,
      metadata = dict_get args ''metadata'' PyNone,
      return_expresion = dict_get args ''return_expresion'' PyNone,
      original_name = PyNone\<rparr>"

text \<open>
  \<open>Field\<close>, called with the keyword arguments \<open>kws\<close> while the check class is \<open>C\<close>. The
  result is the list of constructor invocations made, and the exception raised or the
  descriptor returned. Python rejects a call that gives a keyword twice before the body
  runs.
\<close>

definition Field :: "'c Check \<Rightarrow> kwargs \<Rightarrow> invocation list \<times> (exn + 'c FieldInfo)" where
  "Field C kws =
     (if \<not> distinct (map fst kws)
      then ([], Inl (TypeError ''got multiple values for keyword argument''))
      else
        (let kwargs = kwargs_of kws;
             check_kwargs = shared_options kws;
             args = locals_of kws;
             dispatch = check_dispatch C
         in case validate_kwargs dispatch kwargs of
              Some e \<Rightarrow> ([], Inl e)
            | None \<Rightarrow>
                (case dispatch_loop dispatch args kwargs check_kwargs [] [] of
                   (tr, Inl e) \<Rightarrow> (tr, Inl e)
                 | (tr, Inr checks') \<Rightarrow> (tr, Inr (FieldInfo_init args checks')))))"

text \<open>
  The value the second loop finds for a name, in terms of the call: \<open>args\<close> and
  \<open>kwargs\<close> as \<open>Field\<close> builds them.
\<close>

definition arg_value :: "kwargs \<Rightarrow> string \<Rightarrow> pyval" where
  "arg_value kws arg_name = arg_value_of (locals_of kws) (kwargs_of kws) arg_name"

text \<open>The checks of a descriptor as a sequence; \<open>None\<close> holds no check.\<close>

definition checks_list :: "'c FieldInfo \<Rightarrow> 'c list" where
  "checks_list fi = (case checks fi of None \<Rightarrow> [] | Some cs \<Rightarrow> cs)"

text \<open>\<open>t in s\<close> for strings.\<close>

fun starts_with :: "string \<Rightarrow> string \<Rightarrow> bool" where
  "starts_with s [] = True"
| "starts_with [] (y # t) = False"
| "starts_with (x # s) (y # t) = (x = y \<and> starts_with s t)"

fun occurs_in :: "string \<Rightarrow> string \<Rightarrow> bool" where
  "occurs_in t [] = (t = [])"
| "occurs_in t (x # s) = (starts_with (x # s) t \<or> occurs_in t s)"

subsection \<open>A check library for running the model\<close>

text \<open>
  A stand-in for the external library: each built-in constructor returns a check that
  records the constructor and the arguments it was called with. The registry is given.
\<close>

datatype check_obj = Builtin check_method call | Custom string call

definition recording_Check :: "(string \<times> check_obj constructor) list \<Rightarrow> check_obj Check" where
  "recording_Check registry =
     \<lparr>classmethod = (\<lambda>m c. Inr (Builtin m c)), REGISTERED_CUSTOM_CHECKS = registry\<rparr>"

definition custom_check :: "string \<Rightarrow> check_obj constructor" where
  "custom_check check_fn c = Inr (Custom check_fn c)"

text \<open>\<open>pl.col\<close> as a constructor of selectors that keeps its argument.\<close>

datatype expr = Col pyval

definition pl_col :: "pyval \<Rightarrow> exn + expr" where
  "pl_col v = Inr (Col v)"

text \<open>The shared options when the caller sets none of them.\<close>

definition default_options :: kwargs where
  "default_options =
     [(''ignore_na'', PyBool True), (''raise_warning'', PyBool False),
      (''n_failure_cases'', PyNone)]"

text \<open>Descriptors for running name resolution: alias \<open>b\<close> over the declared name \<open>a\<close>, and alias \<open>x\<close>.\<close>

definition field_a_b :: "pyval \<Rightarrow> pyval \<Rightarrow> check_obj FieldInfo" where
  "field_a_b is_regex emit =
     \<lparr>checks = None, nullable = PyBool False, unique = PyBool False, coerce = PyBool False,
      regex = is_regex, check_name = PyNone, alias = PyStr ''b'', title = PyNone,
      description = PyNone, default_value = PyNone, dtype_kwargs = PyNone, metadata = PyNone,
      return_expresion = emit, original_name = PyStr ''a''\<rparr>"

definition field_x :: "pyval \<Rightarrow> pyval \<Rightarrow> check_obj FieldInfo" where
  "field_x is_regex emit =
     \<lparr>checks = None, nullable = PyBool False, unique = PyBool False, coerce = PyBool False,
      regex = is_regex, check_name = PyNone, alias = PyStr ''x'', title = PyNone,
      description = PyNone, default_value = PyNone, dtype_kwargs = PyNone, metadata = PyNone,
      return_expresion = emit, original_name = PyNone\<rparr>"

text \<open>
  The local variables that \<open>args = locals()\<close> holds besides the constraint keywords: the
  other declared parameters of \<open>Field\<close>, \<open>kwargs\<close> and \<open>check_kwargs\<close>. The second loop
  looks every key of the dispatch table up in \<open>args\<close> first, so a custom check registered
  under such a name is given the value of that variable.
\<close>

definition shadows_local :: "string \<Rightarrow> bool" where
  "shadows_local n \<longleftrightarrow>
     n \<notin> set fixed_names \<and> (n \<in> set param_names \<or> n = ''kwargs'' \<or> n = ''check_kwargs'')"

text \<open>
  A second stand-in for the library, in which the two range constructors need both
  bounds, as a constructor with the signature \<open>in_range(min_value, max_value, ...)\<close>
  does: called with fewer, they raise.
\<close>

definition has_both_bounds :: "call \<Rightarrow> bool" where
  "has_both_bounds c =
     (2 \<le> length (fst c)
          + length (filter (\<lambda>(k, v). k = ''min_value'' \<or> k = ''max_value'') (snd c)))"

definition range_Check :: "(string \<times> check_obj constructor) list \<Rightarrow> check_obj Check" where
  "range_Check registry =
     \<lparr>classmethod =
        (\<lambda>m c. if (m = Check_in_range \<or> m = Check_between) \<and> \<not> has_both_bounds c
               then Inl (TypeError ''missing 1 required positional argument'')
               else Inr (Builtin m c)),
      REGISTERED_CUSTOM_CHECKS = registry\<rparr>"

section \<open>Dictionaries and the dispatch table\<close>

lemma dict_update_Nil: "dict_update d [] = d"
  by (simp add: dict_update_def)

lemma dict_update_Cons: "dict_update d ((k, v) # e) = dict_update (AList.update k v d) e"
  by (simp add: dict_update_def)

lemma distinct_dict_update:
  "distinct (map fst d) \<Longrightarrow> distinct (map fst (dict_update d e))"
  by (induction e arbitrary: d) (auto simp: dict_update_Nil dict_update_Cons distinct_update)

lemma keys_dict_update:
  "\<exists>rest. map fst (dict_update d e) = map fst d @ rest
     \<and> set rest = set (map fst e) - set (map fst d)"
proof (induction e arbitrary: d)
  case Nil
  then show ?case by (simp add: dict_update_Nil)
next
  case (Cons p e)
  obtain k v where p: "p = (k, v)" by (cases p)
  from Cons.IH [of "AList.update k v d"] obtain rest where
    r: "map fst (dict_update (AList.update k v d) e) = map fst (AList.update k v d) @ rest"
       "set rest = set (map fst e) - set (map fst (AList.update k v d))"
    by blast
  show ?case
  proof (cases "k \<in> set (map fst d)")
    case True
    with r p show ?thesis
      by (auto simp: dict_update_Cons update_keys)
  next
    case False
    with r p have "map fst (dict_update d (p # e)) = map fst d @ (k # rest)"
      by (simp add: dict_update_Cons update_keys)
    moreover from r False have "set (k # rest) = set (map fst (p # e)) - set (map fst d)"
      by (auto simp: p update_keys)
    ultimately show ?thesis by blast
  qed
qed

lemma set_keys_dict_update:
  "set (map fst (dict_update d e)) = set (map fst d) \<union> set (map fst e)"
proof -
  obtain rest where r: "map fst (dict_update d e) = map fst d @ rest"
    "set rest = set (map fst e) - set (map fst d)"
    using keys_dict_update [of d e] by blast
  have "set (map fst (dict_update d e)) = set (map fst d) \<union> set rest"
    by (simp only: r(1) set_append)
  with r(2) show ?thesis by blast
qed

lemma map_of_dict_update:
  "distinct (map fst e) \<Longrightarrow>
   map_of (dict_update d e) k = (case map_of e k of Some v \<Rightarrow> Some v | None \<Rightarrow> map_of d k)"
proof (induction e arbitrary: d)
  case Nil
  then show ?case by (simp add: dict_update_Nil)
next
  case (Cons p e)
  obtain k' v where p: "p = (k', v)" by (cases p)
  from Cons.prems p have d: "distinct (map fst e)" and n: "k' \<notin> fst ` set e" by auto
  from n have "map_of e k' = None" by (simp add: map_of_eq_None_iff)
  with Cons.IH [OF d, of "AList.update k' v d"] p show ?case
    by (auto simp: dict_update_Cons update_conv' split: option.splits)
qed

lemma keys_fixed: "map fst (map (\<lambda>(k, m). (k, f m)) fixed_constraints) = fixed_names"
  by (simp add: fixed_names_def fixed_constraints_def)

lemma distinct_fixed_names: "distinct fixed_names"
  by (simp add: fixed_names_def fixed_constraints_def)

lemma distinct_check_dispatch: "distinct (map fst (check_dispatch C))"
  unfolding check_dispatch_def
  by (rule distinct_dict_update) (simp only: keys_fixed distinct_fixed_names)

lemma keys_check_dispatch:
  "\<exists>rest. map fst (check_dispatch C) = fixed_names @ rest
     \<and> set rest = fst ` set (REGISTERED_CUSTOM_CHECKS C) - set fixed_names"
  using keys_dict_update [of "map (\<lambda>(k, m). (k, classmethod C m)) fixed_constraints" "REGISTERED_CUSTOM_CHECKS C"]
  unfolding check_dispatch_def keys_fixed by simp

lemma set_keys_check_dispatch:
  "set (map fst (check_dispatch C)) = set fixed_names \<union> fst ` set (REGISTERED_CUSTOM_CHECKS C)"
proof -
  obtain rest where r: "map fst (check_dispatch C) = fixed_names @ rest"
    "set rest = fst ` set (REGISTERED_CUSTOM_CHECKS C) - set fixed_names"
    using keys_check_dispatch [of C] by blast
  have "set (map fst (check_dispatch C)) = set fixed_names \<union> set rest"
    by (simp only: r(1) set_append)
  with r(2) show ?thesis by blast
qed

lemma map_of_check_dispatch:
  "distinct (map fst (REGISTERED_CUSTOM_CHECKS C)) \<Longrightarrow>
   map_of (check_dispatch C) k =
     (case map_of (REGISTERED_CUSTOM_CHECKS C) k of
        Some f \<Rightarrow> Some f
      | None \<Rightarrow> map_option (classmethod C) (map_of fixed_constraints k))"
  unfolding check_dispatch_def
  by (simp add: map_of_dict_update map_of_map split: option.splits)

section \<open>The two loops of \<open>Field\<close>\<close>

lemma dispatch_loop_checks:
  assumes "dispatch_loop items args kwargs ck tr cs = (tr', Inr cs')"
  shows "\<exists>trn csn. tr' = tr @ trn \<and> cs' = cs @ csn
           \<and> map fst trn = filter (\<lambda>n. arg_value_of args kwargs n \<noteq> PyNone) (map fst items)
           \<and> list_all2 (\<lambda>inv chk. \<exists>ctor. (fst inv, ctor) \<in> set items \<and> ctor (snd inv) = Inr chk)
               trn csn"
  using assms
proof (induction items arbitrary: tr cs)
  case Nil
  then show ?case by simp
next
  case (Cons item items)
  obtain n ctor where item: "item = (n, ctor)" by (cases item)
  let ?R = "\<lambda>its inv chk. \<exists>ctor. (fst inv, ctor) \<in> set its \<and> ctor (snd inv) = Inr chk"
  have mono: "\<And>trn csn. list_all2 (?R items) trn csn \<Longrightarrow> list_all2 (?R (item # items)) trn csn"
    by (erule list_all2_mono) auto
  show ?case
  proof (cases "arg_value_of args kwargs n = PyNone")
    case True
    with Cons.prems item have "dispatch_loop items args kwargs ck tr cs = (tr', Inr cs')"
      by simp
    from Cons.IH [OF this] obtain trn csn where
      "tr' = tr @ trn" "cs' = cs @ csn"
      "map fst trn = filter (\<lambda>n. arg_value_of args kwargs n \<noteq> PyNone) (map fst items)"
      "list_all2 (?R items) trn csn"
      by blast
    with True item mono [of trn csn] show ?thesis
      by (intro exI [of _ trn] exI [of _ csn]) simp
  next
    case False
    with Cons.prems item obtain c chk where
      c: "call_of (arg_value_of args kwargs n) ck = Inr c" and
      chk: "ctor c = Inr chk" and
      rest: "dispatch_loop items args kwargs ck (tr @ [(n, c)]) (cs @ [chk]) = (tr', Inr cs')"
      by (auto simp: Let_def split: sum.splits)
    from Cons.IH [OF rest] obtain trn csn where
      "tr' = (tr @ [(n, c)]) @ trn" "cs' = (cs @ [chk]) @ csn"
      "map fst trn = filter (\<lambda>n. arg_value_of args kwargs n \<noteq> PyNone) (map fst items)"
      "list_all2 (?R items) trn csn"
      by blast
    moreover from chk item have "?R (item # items) (n, c) chk"
      by auto
    ultimately show ?thesis using False item mono [of trn csn]
      by (intro exI [of _ "(n, c) # trn"] exI [of _ "chk # csn"]) (simp del: split_paired_Ex)
  qed
qed

lemma dispatch_loop_trace:
  assumes "dispatch_loop items args kwargs ck tr cs = (tr', r)"
  shows "\<exists>trn. tr' = tr @ trn
           \<and> (\<forall>inv \<in> set trn. fst inv \<in> fst ` set items
                 \<and> arg_value_of args kwargs (fst inv) \<noteq> PyNone
                 \<and> call_of (arg_value_of args kwargs (fst inv)) ck = Inr (snd inv))"
  using assms
proof (induction items arbitrary: tr cs)
  case Nil
  then show ?case by simp
next
  case (Cons item items)
  obtain n ctor where item: "item = (n, ctor)" by (cases item)
  show ?case
  proof (cases "arg_value_of args kwargs n = PyNone")
    case True
    with Cons.prems item have "dispatch_loop items args kwargs ck tr cs = (tr', r)"
      by simp
    from Cons.IH [OF this] show ?thesis by auto
  next
    case False
    show ?thesis
    proof (cases "call_of (arg_value_of args kwargs n) ck")
      case (Inl e)
      with Cons.prems item False show ?thesis by simp
    next
      case (Inr c)
      show ?thesis
      proof (cases "ctor c")
        case (Inl e)
        with Cons.prems item False Inr have "tr' = tr @ [(n, c)]" by simp
        with Inr item False show ?thesis by simp
      next
        case r2: (Inr chk)
        with Cons.prems item False Inr
        have "dispatch_loop items args kwargs ck (tr @ [(n, c)]) (cs @ [chk]) = (tr', r)"
          by simp
        from Cons.IH [OF this] obtain trn where
          "tr' = (tr @ [(n, c)]) @ trn"
          "\<forall>inv \<in> set trn. fst inv \<in> fst ` set items
                 \<and> arg_value_of args kwargs (fst inv) \<noteq> PyNone
                 \<and> call_of (arg_value_of args kwargs (fst inv)) ck = Inr (snd inv)"
          by blast
        with Inr item False show ?thesis
          by (intro exI [of _ "(n, c) # trn"]) auto
      qed
    qed
  qed
qed

lemma dispatch_loop_absent:
  assumes "\<forall>n \<in> fst ` set items. arg_value_of args kwargs n = PyNone"
  shows "dispatch_loop items args kwargs ck tr cs = (tr, Inr cs)"
  using assms by (induction items arbitrary: tr cs) auto

lemma dispatch_loop_single:
  assumes "distinct (map fst items)" and "(k, ctor) \<in> set items"
    and "\<forall>n \<in> fst ` set items. n \<noteq> k \<longrightarrow> arg_value_of args kwargs n = PyNone"
    and "arg_value_of args kwargs k \<noteq> PyNone"
    and "call_of (arg_value_of args kwargs k) ck = Inr c"
  shows "dispatch_loop items args kwargs ck tr cs =
           (case ctor c of Inl e \<Rightarrow> (tr @ [(k, c)], Inl e)
                         | Inr chk \<Rightarrow> (tr @ [(k, c)], Inr (cs @ [chk])))"
  using assms
proof (induction items arbitrary: tr cs)
  case Nil
  then show ?case by simp
next
  case (Cons item items)
  obtain n f where item: "item = (n, f)" by (cases item)
  show ?case
  proof (cases "n = k")
    case True
    with Cons.prems item have f: "f = ctor" and notin: "k \<notin> fst ` set items"
      by (auto simp: image_iff)
    have "\<forall>n \<in> fst ` set items. arg_value_of args kwargs n = PyNone"
    proof
      fix m assume m: "m \<in> fst ` set items"
      with notin have "m \<noteq> k" by blast
      moreover from m have "m \<in> fst ` set (item # items)" by auto
      ultimately show "arg_value_of args kwargs m = PyNone"
        using Cons.prems(3) by blast
    qed
    then have "\<And>tr cs. dispatch_loop items args kwargs ck tr cs = (tr, Inr cs)"
      by (rule dispatch_loop_absent)
    with True f item Cons.prems(4,5) show ?thesis
      by (simp split: sum.splits)
  next
    case False
    with Cons.prems item have "(k, ctor) \<in> set items" "distinct (map fst items)"
      "arg_value_of args kwargs n = PyNone"
      "\<forall>n \<in> fst ` set items. n \<noteq> k \<longrightarrow> arg_value_of args kwargs n = PyNone"
      by auto
    with Cons.IH [of tr cs] Cons.prems(4,5) item show ?thesis by simp
  qed
qed

lemma validate_kwargs_None:
  "validate_kwargs dispatch kwargs = None \<longleftrightarrow> fst ` set kwargs \<subseteq> fst ` set dispatch"
  by (induction dispatch kwargs rule: validate_kwargs.induct) auto

lemma validate_kwargs_Some:
  assumes "\<not> fst ` set kwargs \<subseteq> fst ` set dispatch"
  shows "\<exists>k. List.find (\<lambda>k. k \<notin> fst ` set dispatch) (map fst kwargs) = Some k
           \<and> validate_kwargs dispatch kwargs = Some (SchemaInitError (unknown_check_message k))"
  using assms by (induction dispatch kwargs rule: validate_kwargs.induct) auto

section \<open>The values \<open>Field\<close> finds for a name\<close>

lemma map_of_bind:
  "map_of (map (\<lambda>(p, dflt). (p, f p dflt)) ps) n = map_option (f n) (map_of ps n)"
  by (induction ps) auto

lemma map_of_bind_params:
  "map_of (bind_params kws) n = map_option (dict_get kws n) (map_of Field_params n)"
  unfolding bind_params_def by (rule map_of_bind)

lemma map_of_kwargs_of:
  "map_of (kwargs_of kws) n = (if n \<in> set param_names then None else map_of kws n)"
  unfolding kwargs_of_def by (induction kws) auto

lemma param_names_iff: "n \<in> set param_names \<longleftrightarrow> map_of Field_params n \<noteq> None"
  unfolding param_names_def by (simp add: map_of_eq_None_iff)

lemma arg_value_cases:
  "arg_value kws n =
     (case map_of Field_params n of
        Some dflt \<Rightarrow> dict_get kws n dflt
      | None \<Rightarrow>
          if n = ''kwargs'' then PyDict (py_items (kwargs_of kws))
          else if n = ''check_kwargs'' then PyDict (py_items (shared_options kws))
          else dict_get kws n PyNone)"
proof (cases "map_of Field_params n")
  case None
  then have "n \<notin> set param_names" by (simp add: param_names_iff)
  with None show ?thesis
    by (simp add: arg_value_def arg_value_of_def locals_of_def dict_get_def map_add_def
        map_of_bind_params map_of_kwargs_of)
next
  case (Some dflt)
  then show ?thesis
    by (simp add: arg_value_def arg_value_of_def locals_of_def dict_get_def map_add_def
        map_of_bind_params)
qed

lemma fixed_names_locals:
  "\<forall>k \<in> set fixed_names. map_of Field_params k = Some PyNone
      \<or> (map_of Field_params k = None \<and> k \<noteq> ''kwargs'' \<and> k \<noteq> ''check_kwargs'')"
  by code_simp

lemma arg_value_fixed:
  assumes "k \<in> set fixed_names"
  shows "arg_value kws k = dict_get kws k PyNone"
proof -
  from assms fixed_names_locals have "map_of Field_params k = Some PyNone
      \<or> (map_of Field_params k = None \<and> k \<noteq> ''kwargs'' \<and> k \<noteq> ''check_kwargs'')"
    by blast
  then show ?thesis by (auto simp: arg_value_cases)
qed

lemma arg_value_None_order:
  assumes "distinct (map fst kws)" and "distinct (map fst kws')" and "set kws' = set kws"
  shows "arg_value kws' n = PyNone \<longleftrightarrow> arg_value kws n = PyNone"
proof -
  from assms have "map_of kws' = map_of kws"
    by (simp add: map_of_inject_set)
  then show ?thesis
    by (simp add: arg_value_cases dict_get_def split: option.splits)
qed

text \<open>The shared options are the caller's values, or the defaults of the three parameters.\<close>

lemma shared_options_eq:
  "shared_options kws =
     [(''ignore_na'', dict_get kws ''ignore_na'' (PyBool True)),
      (''raise_warning'', dict_get kws ''raise_warning'' (PyBool False)),
      (''n_failure_cases'', dict_get kws ''n_failure_cases'' PyNone)]"
  by (simp add: shared_options_def check_kwargs_of_def dict_get_def map_of_bind_params Field_params_def)

lemma Field_returns:
  assumes "Field C kws = (tr, Inr fi)"
  shows "distinct (map fst kws) \<and> set (map fst (kwargs_of kws)) \<subseteq> set (map fst (check_dispatch C))
    \<and> (\<exists>cs. dispatch_loop (check_dispatch C) (locals_of kws) (kwargs_of kws) (shared_options kws) [] []
              = (tr, Inr cs) \<and> fi = FieldInfo_init (locals_of kws) cs)"
  using assms
  by (auto simp: Field_def Let_def validate_kwargs_None split: if_splits option.splits prod.splits sum.splits)

lemma Field_accepted:
  assumes "distinct (map fst kws)"
    and "set (map fst (kwargs_of kws)) \<subseteq> set (map fst (check_dispatch C))"
  shows "Field C kws =
     (case dispatch_loop (check_dispatch C) (locals_of kws) (kwargs_of kws) (shared_options kws) [] [] of
        (tr, Inl e) \<Rightarrow> (tr, Inl e)
      | (tr, Inr cs) \<Rightarrow> (tr, Inr (FieldInfo_init (locals_of kws) cs)))"
proof -
  from assms(2) have "validate_kwargs (check_dispatch C) (kwargs_of kws) = None"
    by (simp add: validate_kwargs_None)
  with assms(1) show ?thesis by (simp add: Field_def Let_def)
qed

lemma map_of_dict_update_other:
  "k \<notin> set (map fst e) \<Longrightarrow> map_of (dict_update d e) k = map_of d k"
  by (induction e arbitrary: d) (auto simp: dict_update_Nil dict_update_Cons update_conv')

text \<open>A fixed name that no registered check overrides is dispatched to the built-in constructor.\<close>

lemma check_dispatch_fixed:
  assumes "(k, m) \<in> set fixed_constraints"
    and "k \<notin> set (map fst (REGISTERED_CUSTOM_CHECKS C))"
  shows "map_of (check_dispatch C) k = Some (classmethod C m)"
proof -
  have "distinct (map fst fixed_constraints)"
    using distinct_fixed_names by (simp add: fixed_names_def)
  with assms(1) have "map_of fixed_constraints k = Some m" by simp
  with assms(2) show ?thesis
    unfolding check_dispatch_def
    by (simp add: map_of_dict_update_other map_of_map)
qed

text \<open>
  What the caller has to do for a table key to have the value \<open>None\<close>: a fixed name, or
  a registered name that is not the name of a local variable of \<open>Field\<close>, is \<open>None\<close>
  unless the call sets it. A registered name that is also a declared parameter of
  \<open>Field\<close> takes the value of that parameter.
\<close>

lemma arg_value_custom:
  assumes "n \<notin> set param_names" and "n \<noteq> ''kwargs''" and "n \<noteq> ''check_kwargs''"
  shows "arg_value kws n = dict_get kws n PyNone"
  using assms by (simp add: arg_value_cases param_names_iff)

lemma arg_value_unset:
  assumes "n \<in> set fixed_names
     \<or> (n \<notin> set param_names \<and> n \<noteq> ''kwargs'' \<and> n \<noteq> ''check_kwargs'')"
    and "n \<notin> set (map fst kws)"
  shows "arg_value kws n = PyNone"
proof -
  from assms(2) have "map_of kws n = None"
    by (simp add: map_of_eq_None_iff)
  with assms(1) show ?thesis
    by (auto simp: arg_value_fixed arg_value_custom dict_get_def)
qed

section \<open>Name resolution\<close>

lemma name_self: "fst (name col self) = self"
  by (simp add: name_def Let_def split: sum.splits)

lemma name_outcome:
  "snd (name col self) =
     (let effective = (if alias self \<noteq> PyNone then alias self else original_name self)
      in if truthy (return_expresion self) then
           (case (if truthy (regex self) then anchor effective else Inr effective) of
              Inl e \<Rightarrow> Inl e
            | Inr pattern \<Rightarrow> (case col pattern of Inl e \<Rightarrow> Inl e | Inr ex \<Rightarrow> Inr (Selector ex)))
         else Inr (Name effective))"
  by (simp add: name_def Let_def split: sum.splits)

text \<open>
  C8. Resolving the name does not change the descriptor, and resolving it again on the
  descriptor left by the first access gives the same outcome.
\<close>

theorem name_pure:
  "fst (name col self) = self
   \<and> name col (fst (name col self)) = name col self"
  by (simp add: name_self)

text \<open>
  C6. With an alias set, the outcome of name resolution does not depend on
  \<open>original_name\<close>: in plain mode it is the alias itself, in expression mode the selector
  built by \<open>col\<close> from the alias, or from \<open>"^" + alias + "$"\<close> when the field is a regex
  field (for a string alias \<open>s\<close>, from \<open>^s$\<close>).
\<close>

theorem name_alias_precedence:
  assumes "alias self \<noteq> PyNone"
  shows "snd (name col (self\<lparr>original_name := other\<rparr>)) = snd (name col self)
    \<and> (\<not> truthy (return_expresion self) \<longrightarrow> snd (name col self) = Inr (Name (alias self)))
    \<and> (truthy (return_expresion self) \<and> \<not> truthy (regex self) \<longrightarrow>
         snd (name col self) =
           (case col (alias self) of Inl e \<Rightarrow> Inl e | Inr ex \<Rightarrow> Inr (Selector ex)))
    \<and> (truthy (return_expresion self) \<and> truthy (regex self) \<longrightarrow>
         snd (name col self) =
           (case anchor (alias self) of
              Inl e \<Rightarrow> Inl e
            | Inr pattern \<Rightarrow>
                (case col pattern of Inl e \<Rightarrow> Inl e | Inr ex \<Rightarrow> Inr (Selector ex))))
    \<and> (truthy (return_expresion self) \<and> truthy (regex self) \<longrightarrow>
         (\<forall>s. alias self = PyStr s \<longrightarrow>
           snd (name col self) =
             (case col (PyStr (''^'' @ s @ ''$'')) of
                Inl e \<Rightarrow> Inl e | Inr ex \<Rightarrow> Inr (Selector ex))))"
  using assms by (simp add: name_outcome anchor_def Let_def)

theorem name_alias_precedence_witness:
  "alias (field_a_b (PyBool False) (PyBool False)) \<noteq> PyNone
   \<and> snd (name pl_col (field_a_b (PyBool False) (PyBool False))) = Inr (Name (PyStr ''b''))
   \<and> snd (name pl_col (field_a_b (PyBool False) (PyBool True))) = Inr (Selector (Col (PyStr ''b'')))
   \<and> snd (name pl_col (field_a_b (PyBool True) (PyBool True))) = Inr (Selector (Col (PyStr ''^b$'')))
   \<and> snd (name pl_col ((field_a_b (PyBool False) (PyBool False))\<lparr>original_name := PyStr ''c''\<rparr>))
       = Inr (Name (PyStr ''b''))"
  using name_alias_precedence [of "field_a_b (PyBool False) (PyBool False)" pl_col "PyStr ''c''"]
    name_alias_precedence [of "field_a_b (PyBool False) (PyBool True)" pl_col "PyStr ''c''"]
    name_alias_precedence [of "field_a_b (PyBool True) (PyBool True)" pl_col "PyStr ''c''"]
  by (simp add: field_a_b_def pl_col_def anchor_def)

text \<open>
  C7. A descriptor whose effective name is the string \<open>s\<close> (for instance \<open>x\<close>): a regex
  field in expression mode resolves to the selector built from \<open>^s$\<close>; in plain mode it
  resolves to the string \<open>s\<close> itself, whatever the regex flag; a field that is not a regex
  field resolves in expression mode to the selector built from \<open>s\<close>.
\<close>

theorem name_regex_modes:
  assumes "(if alias self \<noteq> PyNone then alias self else original_name self) = PyStr s"
  shows "(truthy (return_expresion self) \<and> regex self = PyBool True \<longrightarrow>
            snd (name col self) =
              (case col (PyStr (''^'' @ s @ ''$'')) of
                 Inl e \<Rightarrow> Inl e | Inr ex \<Rightarrow> Inr (Selector ex)))
    \<and> (\<not> truthy (return_expresion self) \<longrightarrow> snd (name col self) = Inr (Name (PyStr s)))
    \<and> (truthy (return_expresion self) \<and> regex self = PyBool False \<longrightarrow>
            snd (name col self) =
              (case col (PyStr s) of Inl e \<Rightarrow> Inl e | Inr ex \<Rightarrow> Inr (Selector ex)))"
  using assms by (simp add: name_outcome anchor_def Let_def)

theorem name_regex_modes_witness:
  "snd (name pl_col (field_x (PyBool True) (PyBool True))) = Inr (Selector (Col (PyStr ''^x$'')))
   \<and> snd (name pl_col (field_x (PyBool True) (PyBool False))) = Inr (Name (PyStr ''x''))
   \<and> snd (name pl_col (field_x (PyBool False) (PyBool True))) = Inr (Selector (Col (PyStr ''x'')))"
  using name_regex_modes [of "field_x (PyBool True) (PyBool True)" "''x''" pl_col]
    name_regex_modes [of "field_x (PyBool True) (PyBool False)" "''x''" pl_col]
    name_regex_modes [of "field_x (PyBool False) (PyBool True)" "''x''" pl_col]
  by (simp add: field_x_def pl_col_def)

section \<open>Constraint compilation\<close>

lemma checks_list_init: "checks_list (FieldInfo_init args cs) = cs"
  by (simp add: checks_list_def FieldInfo_init_def)

lemma checks_init: "checks (FieldInfo_init args cs) = (if cs = [] then None else Some cs)"
  by (simp add: FieldInfo_init_def)

lemma fixed_names_dispatch: "k \<in> set fixed_names \<Longrightarrow> k \<in> set (map fst (check_dispatch C))"
  using set_keys_check_dispatch [of C] by blast

lemma call_of_scalar: "v \<noteq> PyNone \<Longrightarrow> \<not> is_dict v \<Longrightarrow> call_of v ck = Inr ([v], ck)"
  by (cases v) (simp_all add: call_of_def)

lemma call_of_dict:
  "call_of (PyDict d) ck = Inr c \<longleftrightarrow>
     (\<exists>named. str_keys d = Some named \<and> distinct (map fst (named @ ck)) \<and> c = ([], named @ ck))"
  by (auto simp: call_of_def merge_kwargs_def split: option.splits sum.splits if_splits)

lemma Field_returns_trace:
  assumes "Field C kws = (tr, Inr fi)"
  shows "map fst tr = filter (\<lambda>n. arg_value kws n \<noteq> PyNone) (map fst (check_dispatch C))
    \<and> (\<forall>inv \<in> set tr. call_of (arg_value kws (fst inv)) (shared_options kws) = Inr (snd inv))
    \<and> list_all2 (\<lambda>inv chk. \<exists>ctor. map_of (check_dispatch C) (fst inv) = Some ctor
                     \<and> ctor (snd inv) = Inr chk) tr (checks_list fi)"
proof -
  from Field_returns [OF assms] obtain cs where
    loop: "dispatch_loop (check_dispatch C) (locals_of kws) (kwargs_of kws) (shared_options kws) [] []
             = (tr, Inr cs)" and
    fi: "fi = FieldInfo_init (locals_of kws) cs"
    by blast
  from dispatch_loop_checks [OF loop] have
    keys: "map fst tr = filter (\<lambda>n. arg_value_of (locals_of kws) (kwargs_of kws) n \<noteq> PyNone)
             (map fst (check_dispatch C))" and
    rel: "list_all2 (\<lambda>inv chk. \<exists>ctor. (fst inv, ctor) \<in> set (check_dispatch C)
             \<and> ctor (snd inv) = Inr chk) tr cs"
    by auto
  from dispatch_loop_trace [OF loop] have
    calls: "\<forall>inv \<in> set tr. call_of (arg_value_of (locals_of kws) (kwargs_of kws) (fst inv))
              (shared_options kws) = Inr (snd inv)"
    by auto
  have "list_all2 (\<lambda>inv chk. \<exists>ctor. map_of (check_dispatch C) (fst inv) = Some ctor
          \<and> ctor (snd inv) = Inr chk) tr cs"
    using rel by (rule list_all2_mono) (auto simp: distinct_check_dispatch)
  with keys calls fi show ?thesis
    by (simp add: arg_value_def checks_list_init)
qed

subsection \<open>Unknown keywords\<close>

lemma starts_with_append: "starts_with (t @ s) t"
  by (induction t) auto

lemma occurs_in_start: "starts_with s t \<Longrightarrow> occurs_in t s"
  by (cases s; cases t) auto

lemma occurs_in_append: "occurs_in t s \<Longrightarrow> occurs_in t (pre @ s)"
  by (induction pre) auto

lemma occurs_in_middle: "occurs_in t (pre @ t @ post)"
  by (intro occurs_in_append occurs_in_start starts_with_append)

lemma unknown_check_message_names: "occurs_in key (unknown_check_message key)"
  unfolding unknown_check_message_def
  using occurs_in_middle [of key "''custom check '' @ [CHR 0x27]"] by simp

lemma find_kwargs_of:
  "List.find P (map fst (kwargs_of kws)) =
     List.find (\<lambda>n. n \<notin> set param_names \<and> P n) (map fst kws)"
  unfolding kwargs_of_def by (induction kws) auto

lemma fixed_names_eq:
  "fixed_names =
     [''eq'', ''ne'', ''gt'', ''ge'', ''lt'', ''le'', ''in_range'', ''between'', ''isin'',
      ''notin'', ''str_contains'', ''str_endswith'', ''str_matches'', ''str_length'',
      ''str_startswith'', ''unique_values_eq'']"
  by (simp add: fixed_names_def fixed_constraints_def)

text \<open>
  C1, as amended. A call with a keyword that is not a declared parameter of \<open>Field\<close>, not
  one of the fixed constraint names and not a registered custom check raises
  \<open>SchemaInitError\<close>; the message names the first such keyword of the call; no
  constructor has been invoked and no descriptor is returned.
\<close>

theorem Field_unknown_keyword:
  assumes "distinct (map fst kws)"
    and "k \<in> set (map fst kws)" and "k \<notin> set param_names"
    and "k \<notin> set fixed_names" and "k \<notin> set (map fst (REGISTERED_CUSTOM_CHECKS C))"
  shows "\<exists>k0. List.find (\<lambda>n. n \<notin> set param_names \<and> n \<notin> set fixed_names
                   \<and> n \<notin> set (map fst (REGISTERED_CUSTOM_CHECKS C))) (map fst kws) = Some k0
           \<and> Field C kws = ([], Inl (SchemaInitError (unknown_check_message k0)))
           \<and> occurs_in k0 (unknown_check_message k0)"
proof -
  let ?dispatch = "check_dispatch C"
  from assms(2,3) have "k \<in> fst ` set (kwargs_of kws)"
    by (force simp: kwargs_of_def)
  moreover from assms(4,5) have "k \<notin> fst ` set ?dispatch"
    using set_keys_check_dispatch [of C] by auto
  ultimately have "\<not> fst ` set (kwargs_of kws) \<subseteq> fst ` set ?dispatch"
    by blast
  from validate_kwargs_Some [OF this] obtain k0 where
    f: "List.find (\<lambda>k. k \<notin> fst ` set ?dispatch) (map fst (kwargs_of kws)) = Some k0" and
    v: "validate_kwargs ?dispatch (kwargs_of kws) = Some (SchemaInitError (unknown_check_message k0))"
    by blast
  have "(\<lambda>n. n \<notin> set param_names \<and> n \<notin> fst ` set ?dispatch) =
        (\<lambda>n. n \<notin> set param_names \<and> n \<notin> set fixed_names
               \<and> n \<notin> set (map fst (REGISTERED_CUSTOM_CHECKS C)))"
    using set_keys_check_dispatch [of C] by auto
  with f have "List.find (\<lambda>n. n \<notin> set param_names \<and> n \<notin> set fixed_names
                   \<and> n \<notin> set (map fst (REGISTERED_CUSTOM_CHECKS C))) (map fst kws) = Some k0"
    by (simp add: find_kwargs_of)
  moreover from assms(1) v have "Field C kws = ([], Inl (SchemaInitError (unknown_check_message k0)))"
    by (simp add: Field_def Let_def)
  ultimately show ?thesis
    using unknown_check_message_names by blast
qed

theorem Field_unknown_keyword_witness:
  "distinct (map fst [(''gt'', PyInt 1), (''foo'', PyInt 2)])
   \<and> ''foo'' \<in> set (map fst [(''gt'', PyInt 1), (''foo'', PyInt 2)])
   \<and> ''foo'' \<notin> set param_names \<and> ''foo'' \<notin> set fixed_names
   \<and> ''foo'' \<notin> set (map fst (REGISTERED_CUSTOM_CHECKS (recording_Check [])))
   \<and> Field (recording_Check []) [(''gt'', PyInt 1), (''foo'', PyInt 2)]
        = ([], Inl (SchemaInitError (unknown_check_message ''foo'')))
   \<and> occurs_in ''foo'' (unknown_check_message ''foo'')"
proof -
  let ?kws = "[(''gt'', PyInt 1), (''foo'', PyInt 2)]"
  let ?C = "recording_Check []"
  have h1: "distinct (map fst ?kws)" by simp
  have h2: "''foo'' \<in> set (map fst ?kws)" by simp
  have h3: "''foo'' \<notin> set param_names" by code_simp
  have h4: "''foo'' \<notin> set fixed_names" by code_simp
  have h5: "''foo'' \<notin> set (map fst (REGISTERED_CUSTOM_CHECKS ?C))"
    by (simp add: recording_Check_def)
  have f: "List.find (\<lambda>n. n \<notin> set param_names \<and> n \<notin> set fixed_names
             \<and> n \<notin> set (map fst (REGISTERED_CUSTOM_CHECKS ?C))) (map fst ?kws) = Some ''foo''"
    by code_simp
  from Field_unknown_keyword [OF h1 h2 h3 h4 h5] f
  have r: "Field ?C ?kws = ([], Inl (SchemaInitError (unknown_check_message ''foo'')))"
    and o: "occurs_in ''foo'' (unknown_check_message ''foo'')"
    by auto
  from h1 h2 h3 h4 h5 r o show ?thesis by (intro conjI)
qed

theorem Field_unknown_keyword_counterexample:
  "''nullable'' \<notin> set fixed_names
   \<and> ''nullable'' \<notin> set (map fst (REGISTERED_CUSTOM_CHECKS (recording_Check [])))
   \<and> \<not> isl (snd (Field (recording_Check []) [(''nullable'', PyBool True)]))
   \<and> ''bar'' \<notin> set fixed_names
   \<and> ''bar'' \<notin> set (map fst (REGISTERED_CUSTOM_CHECKS (recording_Check [])))
   \<and> Field (recording_Check []) [(''foo'', PyInt 1), (''bar'', PyInt 2)]
        = ([], Inl (SchemaInitError (unknown_check_message ''foo'')))
   \<and> \<not> occurs_in ''bar'' (unknown_check_message ''foo'')"
  by code_simp

subsection \<open>Order of the checks\<close>

text \<open>
  C2. The constructors are invoked, and the checks collected, in the order of the
  dispatch table: the sixteen fixed names in the order of the dictionary literal, then
  the registered names that are not among them. The keywords for which a constructor is
  invoked are the table's keys whose value is not \<open>None\<close>, so two calls that supply the
  same keyword arguments in different orders construct their checks for the same
  keywords in the same order.
\<close>

theorem Field_checks_order:
  assumes "Field C kws = (tr, Inr fi)" and "Field C kws' = (tr', Inr fi')"
    and "set kws' = set kws"
  shows "map fst tr = filter (\<lambda>n. arg_value kws n \<noteq> PyNone) (map fst (check_dispatch C))
    \<and> map fst tr' = map fst tr
    \<and> list_all2 (\<lambda>inv chk. \<exists>ctor. map_of (check_dispatch C) (fst inv) = Some ctor
                     \<and> ctor (snd inv) = Inr chk) tr (checks_list fi)
    \<and> (\<exists>rest. map fst (check_dispatch C) =
           [''eq'', ''ne'', ''gt'', ''ge'', ''lt'', ''le'', ''in_range'', ''between'', ''isin'',
            ''notin'', ''str_contains'', ''str_endswith'', ''str_matches'', ''str_length'',
            ''str_startswith'', ''unique_values_eq''] @ rest
         \<and> set rest = set (map fst (REGISTERED_CUSTOM_CHECKS C)) - set fixed_names)"
proof -
  from Field_returns [OF assms(1)] Field_returns [OF assms(2)]
  have d: "distinct (map fst kws)" "distinct (map fst kws')" by simp_all
  from arg_value_None_order [OF d assms(3)]
  have same: "(\<lambda>n. arg_value kws' n \<noteq> PyNone) = (\<lambda>n. arg_value kws n \<noteq> PyNone)"
    by simp
  from Field_returns_trace [OF assms(1)] have
    t1: "map fst tr = filter (\<lambda>n. arg_value kws n \<noteq> PyNone) (map fst (check_dispatch C))" and
    c1: "list_all2 (\<lambda>inv chk. \<exists>ctor. map_of (check_dispatch C) (fst inv) = Some ctor
                     \<and> ctor (snd inv) = Inr chk) tr (checks_list fi)"
    by simp_all
  from Field_returns_trace [OF assms(2)] have
    "map fst tr' = filter (\<lambda>n. arg_value kws' n \<noteq> PyNone) (map fst (check_dispatch C))"
    by simp
  with same t1 have t2: "map fst tr' = map fst tr" by simp
  from keys_check_dispatch [of C] have
    "\<exists>rest. map fst (check_dispatch C) =
           [''eq'', ''ne'', ''gt'', ''ge'', ''lt'', ''le'', ''in_range'', ''between'', ''isin'',
            ''notin'', ''str_contains'', ''str_endswith'', ''str_matches'', ''str_length'',
            ''str_startswith'', ''unique_values_eq''] @ rest
         \<and> set rest = set (map fst (REGISTERED_CUSTOM_CHECKS C)) - set fixed_names"
    by (simp only: fixed_names_eq [symmetric] set_map)
  with t1 t2 c1 show ?thesis by (intro conjI)
qed

theorem Field_checks_order_witness:
  "set [(''str_startswith'', PyStr ''a''), (''approx'', PyInt 1), (''isin'', PyList [PyInt 1, PyInt 2, PyInt 3]),
        (''gt'', PyInt 5)]
     = set [(''gt'', PyInt 5), (''isin'', PyList [PyInt 1, PyInt 2, PyInt 3]),
            (''str_startswith'', PyStr ''a''), (''approx'', PyInt 1)]
   \<and> map fst (fst (Field (recording_Check [(''approx'', custom_check ''approx'')])
        [(''gt'', PyInt 5), (''isin'', PyList [PyInt 1, PyInt 2, PyInt 3]),
         (''str_startswith'', PyStr ''a''), (''approx'', PyInt 1)]))
       = [''gt'', ''isin'', ''str_startswith'', ''approx'']
   \<and> map fst (fst (Field (recording_Check [(''approx'', custom_check ''approx'')])
        [(''str_startswith'', PyStr ''a''), (''approx'', PyInt 1),
         (''isin'', PyList [PyInt 1, PyInt 2, PyInt 3]), (''gt'', PyInt 5)]))
       = [''gt'', ''isin'', ''str_startswith'', ''approx'']"
proof -
  let ?C = "recording_Check [(''approx'', custom_check ''approx'')]"
  let ?kws = "[(''gt'', PyInt 5), (''isin'', PyList [PyInt 1, PyInt 2, PyInt 3]),
               (''str_startswith'', PyStr ''a''), (''approx'', PyInt 1)]"
  let ?kws' = "[(''str_startswith'', PyStr ''a''), (''approx'', PyInt 1),
                (''isin'', PyList [PyInt 1, PyInt 2, PyInt 3]), (''gt'', PyInt 5)]"
  have s: "set ?kws' = set ?kws" by auto
  have "\<not> isl (snd (Field ?C ?kws))" by code_simp
  then obtain fi where r: "Field ?C ?kws = (fst (Field ?C ?kws), Inr fi)"
    by (cases "snd (Field ?C ?kws)") (auto simp: prod_eq_iff)
  have "\<not> isl (snd (Field ?C ?kws'))" by code_simp
  then obtain fi' where r': "Field ?C ?kws' = (fst (Field ?C ?kws'), Inr fi')"
    by (cases "snd (Field ?C ?kws')") (auto simp: prod_eq_iff)
  have a: "map fst (fst (Field ?C ?kws)) = [''gt'', ''isin'', ''str_startswith'', ''approx'']"
    by code_simp
  from Field_checks_order [OF r r' s]
  have "map fst (fst (Field ?C ?kws')) = map fst (fst (Field ?C ?kws))"
    by blast
  with a have b: "map fst (fst (Field ?C ?kws')) = [''gt'', ''isin'', ''str_startswith'', ''approx'']"
    by simp
  from s a b show ?thesis by (intro conjI)
qed

subsection \<open>Invocations and errors\<close>

lemma list_all2_left_witness:
  assumes "list_all2 R xs ys" and "x \<in> set xs"
  shows "\<exists>y \<in> set ys. R x y"
  using assms by (induction rule: list_all2_induct) auto

lemma Field_invocations:
  assumes "Field C kws = (tr, r)"
  shows "\<forall>inv \<in> set tr. fst inv \<in> set (map fst (check_dispatch C))
           \<and> arg_value kws (fst inv) \<noteq> PyNone
           \<and> call_of (arg_value kws (fst inv)) (shared_options kws) = Inr (snd inv)"
proof (cases "distinct (map fst kws) \<and> validate_kwargs (check_dispatch C) (kwargs_of kws) = None")
  case False
  with assms have "tr = []"
    by (auto simp: Field_def Let_def split: if_splits option.splits)
  then show ?thesis by simp
next
  case True
  obtain tr0 r0 where loop:
    "dispatch_loop (check_dispatch C) (locals_of kws) (kwargs_of kws) (shared_options kws) [] []
       = (tr0, r0)"
    by (cases "dispatch_loop (check_dispatch C) (locals_of kws) (kwargs_of kws) (shared_options kws) [] []")
  with assms True have "tr = tr0"
    by (auto simp: Field_def Let_def split: sum.splits)
  with dispatch_loop_trace [OF loop] show ?thesis
    by (simp add: arg_value_def)
qed

lemma count_distinct_filter:
  assumes "distinct xs"
  shows "length (filter (\<lambda>n. n = k) (filter P xs)) = (if k \<in> set xs \<and> P k then 1 else 0)"
  using assms by (induction xs) auto

lemma unknown_check_message_inject:
  "unknown_check_message a = unknown_check_message b \<Longrightarrow> a = b"
  by (simp add: unknown_check_message_def)

lemma call_of_error: "call_of v ck = Inl e \<Longrightarrow> \<exists>m. e = TypeError m"
  by (cases v) (auto simp: call_of_def merge_kwargs_def split: option.splits if_splits sum.splits)

lemma dispatch_loop_error_origin:
  assumes "dispatch_loop items args kwargs ck tr cs = (tr, Inl e)"
  shows "\<exists>m. e = TypeError m"
  using assms
proof (induction items arbitrary: cs)
  case Nil
  then show ?case by simp
next
  case (Cons item items)
  obtain n ctor where item: "item = (n, ctor)" by (cases item)
  show ?case
  proof (cases "arg_value_of args kwargs n = PyNone")
    case True
    with Cons.prems item have "dispatch_loop items args kwargs ck tr cs = (tr, Inl e)"
      by simp
    then show ?thesis by (rule Cons.IH)
  next
    case False
    show ?thesis
    proof (cases "call_of (arg_value_of args kwargs n) ck")
      case (Inl e')
      with Cons.prems item False have "e' = e" by simp
      with Inl show ?thesis by (auto dest: call_of_error)
    next
      case (Inr c)
      show ?thesis
      proof (cases "ctor c")
        case (Inl e')
        with Cons.prems item False Inr show ?thesis by simp
      next
        case r2: (Inr chk)
        with Cons.prems item False Inr
        have "dispatch_loop items args kwargs ck (tr @ [(n, c)]) (cs @ [chk]) = (tr, Inl e)"
          by simp
        from dispatch_loop_trace [OF this] show ?thesis by simp
      qed
    qed
  qed
qed

lemma fixed_constraints_eq:
  "fixed_constraints =
     [(''eq'', Check_equal_to), (''ne'', Check_not_equal_to), (''gt'', Check_greater_than),
      (''ge'', Check_greater_than_or_equal_to), (''lt'', Check_less_than),
      (''le'', Check_less_than_or_equal_to), (''in_range'', Check_in_range),
      (''between'', Check_between), (''isin'', Check_isin), (''notin'', Check_notin),
      (''str_contains'', Check_str_contains), (''str_endswith'', Check_str_endswith),
      (''str_matches'', Check_str_matches), (''str_length'', Check_str_length),
      (''str_startswith'', Check_str_startswith),
      (''unique_values_eq'', Check_unique_values_eq)]"
  by (simp add: fixed_constraints_def)

lemma map_of_fixed_constraints:
  "(k, m) \<in> set fixed_constraints \<Longrightarrow> map_of fixed_constraints k = Some m"
proof -
  have "distinct (map fst fixed_constraints)"
    using distinct_fixed_names by (simp add: fixed_names_def)
  then show "(k, m) \<in> set fixed_constraints \<Longrightarrow> map_of fixed_constraints k = Some m"
    by simp
qed

lemma fixed_constraints_name: "(k, m) \<in> set fixed_constraints \<Longrightarrow> k \<in> set fixed_names"
  by (force simp: fixed_names_def)

text \<open>
  The constructor the table holds for a fixed name: the custom check registered under
  that name if there is one, the built-in constructor otherwise.
\<close>

lemma check_dispatch_fixed_name:
  assumes "(k, m) \<in> set fixed_constraints"
    and "distinct (map fst (REGISTERED_CUSTOM_CHECKS C))"
  shows "map_of (check_dispatch C) k =
           Some (case map_of (REGISTERED_CUSTOM_CHECKS C) k of
                   Some f \<Rightarrow> f | None \<Rightarrow> classmethod C m)"
  using map_of_fixed_constraints [OF assms(1)]
  by (simp add: map_of_check_dispatch [OF assms(2)] split: option.splits)

text \<open>
  A key of the table that is not the name of another local variable of \<open>Field\<close> has the
  value the caller gave it, and \<open>None\<close> when the caller gave none.
\<close>

lemma arg_value_caller:
  assumes "\<not> shadows_local n"
  shows "arg_value kws n = dict_get kws n PyNone"
proof (cases "n \<in> set fixed_names")
  case True
  then show ?thesis by (rule arg_value_fixed)
next
  case False
  with assms have "n \<notin> set param_names" "n \<noteq> ''kwargs''" "n \<noteq> ''check_kwargs''"
    by (simp_all add: shadows_local_def)
  then show ?thesis by (rule arg_value_custom)
qed

lemma fixed_not_shadow: "n \<in> set fixed_names \<Longrightarrow> \<not> shadows_local n"
  by (simp add: shadows_local_def)

lemma table_keys_not_shadow:
  assumes "\<forall>n \<in> set (map fst (REGISTERED_CUSTOM_CHECKS C)). \<not> shadows_local n"
    and "n \<in> set (map fst (check_dispatch C))"
  shows "\<not> shadows_local n"
  using assms set_keys_check_dispatch [of C] fixed_not_shadow by auto

lemma dispatch_loop_raised:
  assumes "dispatch_loop items args kwargs ck tr cs = (tr', Inl e)"
  shows "(\<exists>msg. e = TypeError msg)
     \<or> (\<exists>n c ctor. (n, c) \<in> set tr' \<and> (n, ctor) \<in> set items \<and> ctor c = Inl e)"
  using assms
proof (induction items arbitrary: tr cs)
  case Nil
  then show ?case by simp
next
  case (Cons item items)
  obtain n ctor where item: "item = (n, ctor)" by (cases item)
  have lift: "(\<exists>msg. e = TypeError msg)
       \<or> (\<exists>n c ctor. (n, c) \<in> set tr' \<and> (n, ctor) \<in> set (item # items) \<and> ctor c = Inl e)"
    if "(\<exists>msg. e = TypeError msg)
       \<or> (\<exists>n c ctor. (n, c) \<in> set tr' \<and> (n, ctor) \<in> set items \<and> ctor c = Inl e)"
  proof -
    from that consider (t) "\<exists>msg. e = TypeError msg"
      | (c) n' c' ctor' where "(n', c') \<in> set tr'" "(n', ctor') \<in> set items" "ctor' c' = Inl e"
      by blast
    then show ?thesis
    proof cases
      case t
      then show ?thesis by blast
    next
      case c
      from c(2) have "(n', ctor') \<in> set (item # items)" by simp
      with c(1,3) show ?thesis by blast
    qed
  qed
  show ?case
  proof (cases "arg_value_of args kwargs n = PyNone")
    case True
    with Cons.prems item have "dispatch_loop items args kwargs ck tr cs = (tr', Inl e)"
      by simp
    from Cons.IH [OF this] show ?thesis by (rule lift)
  next
    case False
    show ?thesis
    proof (cases "call_of (arg_value_of args kwargs n) ck")
      case (Inl e')
      with Cons.prems item False have "e' = e" by simp
      with Inl show ?thesis by (auto dest: call_of_error)
    next
      case (Inr c)
      show ?thesis
      proof (cases "ctor c")
        case (Inl e')
        with Cons.prems item False Inr have "tr' = tr @ [(n, c)]" "e' = e" by simp_all
        with Inl item have "(n, c) \<in> set tr'" "(n, ctor) \<in> set (item # items)" "ctor c = Inl e"
          by simp_all
        then show ?thesis by blast
      next
        case r2: (Inr chk)
        with Cons.prems item False Inr
        have "dispatch_loop items args kwargs ck (tr @ [(n, c)]) (cs @ [chk]) = (tr', Inl e)"
          by simp
        from Cons.IH [OF this] show ?thesis by (rule lift)
      qed
    qed
  qed
qed

text \<open>
  An exception that ends a call of \<open>Field\<close> is a \<open>TypeError\<close> (a keyword given twice, in
  the call of \<open>Field\<close> or in a constructor call, or a keyword that is not a string), the
  \<open>SchemaInitError\<close> of the first loop, or an exception raised by a constructor that
  was invoked.
\<close>

lemma Field_raised:
  assumes "Field C kws = (tr, Inl e)"
  shows "(\<exists>msg. e = TypeError msg)
     \<or> (\<exists>key. e = SchemaInitError (unknown_check_message key))
     \<or> (\<exists>n c ctor. (n, c) \<in> set tr \<and> map_of (check_dispatch C) n = Some ctor \<and> ctor c = Inl e)"
proof (cases "distinct (map fst kws)")
  case False
  with assms show ?thesis by (auto simp: Field_def)
next
  case d: True
  show ?thesis
  proof (cases "validate_kwargs (check_dispatch C) (kwargs_of kws)")
    case (Some e')
    then have "\<not> fst ` set (kwargs_of kws) \<subseteq> fst ` set (check_dispatch C)"
      by (simp add: validate_kwargs_None [symmetric])
    from validate_kwargs_Some [OF this] Some obtain k0 where
      "e' = SchemaInitError (unknown_check_message k0)"
      by auto
    with assms d Some show ?thesis by (auto simp: Field_def Let_def)
  next
    case None
    obtain tr0 r0 where loop:
      "dispatch_loop (check_dispatch C) (locals_of kws) (kwargs_of kws) (shared_options kws) [] []
         = (tr0, r0)"
      by (cases "dispatch_loop (check_dispatch C) (locals_of kws) (kwargs_of kws)
                   (shared_options kws) [] []")
    with assms d None have "tr0 = tr" "r0 = Inl e"
      by (auto simp: Field_def Let_def split: sum.splits)
    with loop dispatch_loop_raised [of "check_dispatch C" "locals_of kws" "kwargs_of kws"
        "shared_options kws" "[]" "[]" tr e]
    show ?thesis by (auto simp: distinct_check_dispatch)
  qed
qed

subsection \<open>A single scalar constraint\<close>

text \<open>
  C3, as amended. A call that sets one fixed constraint keyword \<open>k\<close> to a value that is
  neither \<open>None\<close> nor a dictionary and gives no other key of the dispatch table a value
  other than \<open>None\<close>, no custom check being registered under the name of another local
  variable of \<open>Field\<close>: exactly one constructor is invoked, the one the table holds for
  \<open>k\<close> (the built-in constructor listed for \<open>k\<close>, or the custom check registered under
  that name), with the value as its one positional argument and with the shared options
  (the caller's \<open>ignore_na\<close>, \<open>raise_warning\<close>, \<open>n_failure_cases\<close>, else \<open>True\<close>, \<open>False\<close>,
  \<open>None\<close>) as named arguments. When the constructor returns, the descriptor has exactly
  that check; when it raises, \<open>Field\<close> raises the same exception and returns no
  descriptor.
\<close>

theorem Field_single_scalar:
  assumes "distinct (map fst kws)"
    and "\<forall>n \<in> set (map fst kws). n \<in> set param_names \<or> n \<in> set (map fst (check_dispatch C))"
    and "(k, m) \<in> set
           [(''eq'', Check_equal_to), (''ne'', Check_not_equal_to), (''gt'', Check_greater_than),
            (''ge'', Check_greater_than_or_equal_to), (''lt'', Check_less_than),
            (''le'', Check_less_than_or_equal_to), (''in_range'', Check_in_range),
            (''between'', Check_between), (''isin'', Check_isin), (''notin'', Check_notin),
            (''str_contains'', Check_str_contains), (''str_endswith'', Check_str_endswith),
            (''str_matches'', Check_str_matches), (''str_length'', Check_str_length),
            (''str_startswith'', Check_str_startswith),
            (''unique_values_eq'', Check_unique_values_eq)]"
    and "map_of kws k = Some v" and "v \<noteq> PyNone" and "\<not> is_dict v"
    and "\<forall>n \<in> set (map fst (check_dispatch C)). n \<noteq> k \<longrightarrow> dict_get kws n PyNone = PyNone"
    and "distinct (map fst (REGISTERED_CUSTOM_CHECKS C))"
    and "\<forall>n \<in> set (map fst (REGISTERED_CUSTOM_CHECKS C)). \<not> shadows_local n"
  shows "Field C kws =
           ([(k, [v],
              [(''ignore_na'', dict_get kws ''ignore_na'' (PyBool True)),
               (''raise_warning'', dict_get kws ''raise_warning'' (PyBool False)),
               (''n_failure_cases'', dict_get kws ''n_failure_cases'' PyNone)])],
            (case (case map_of (REGISTERED_CUSTOM_CHECKS C) k of
                     Some f \<Rightarrow> f | None \<Rightarrow> classmethod C m)
                    ([v],
                     [(''ignore_na'', dict_get kws ''ignore_na'' (PyBool True)),
                      (''raise_warning'', dict_get kws ''raise_warning'' (PyBool False)),
                      (''n_failure_cases'', dict_get kws ''n_failure_cases'' PyNone)]) of
               Inl e \<Rightarrow> Inl e
             | Inr check \<Rightarrow> Inr (FieldInfo_init (locals_of kws) [check])))
    \<and> (\<forall>check. checks (FieldInfo_init (locals_of kws) [check] :: 'c FieldInfo) = Some [check])"
proof -
  let ?args = "locals_of kws" and ?kwargs = "kwargs_of kws" and ?ck = "shared_options kws"
  let ?ctor = "case map_of (REGISTERED_CUSTOM_CHECKS C) k of
                 Some f \<Rightarrow> f | None \<Rightarrow> classmethod C m"
  from assms(3) have km: "(k, m) \<in> set fixed_constraints"
    by (simp only: fixed_constraints_eq)
  then have kf: "k \<in> set fixed_names" by (rule fixed_constraints_name)
  from assms(2) have acc: "set (map fst (kwargs_of kws)) \<subseteq> set (map fst (check_dispatch C))"
    by (auto simp: kwargs_of_def)
  from kf assms(4) have val: "arg_value_of ?args ?kwargs k = v"
    using arg_value_fixed [of k kws] by (simp add: arg_value_def dict_get_def)
  from check_dispatch_fixed_name [OF km assms(8)]
  have mem: "(k, ?ctor) \<in> set (check_dispatch C)"
    by (rule map_of_SomeD)
  have others:
    "\<forall>n \<in> fst ` set (check_dispatch C). n \<noteq> k \<longrightarrow> arg_value_of ?args ?kwargs n = PyNone"
  proof (intro ballI impI)
    fix n assume n: "n \<in> fst ` set (check_dispatch C)" and "n \<noteq> k"
    from n have n': "n \<in> set (map fst (check_dispatch C))" by simp
    with assms(7) \<open>n \<noteq> k\<close> have "dict_get kws n PyNone = PyNone" by blast
    moreover from table_keys_not_shadow [OF assms(9) n']
    have "arg_value kws n = dict_get kws n PyNone" by (rule arg_value_caller)
    ultimately show "arg_value_of ?args ?kwargs n = PyNone"
      by (simp add: arg_value_def)
  qed
  from assms(5,6) val have call: "call_of (arg_value_of ?args ?kwargs k) ?ck = Inr ([v], ?ck)"
    by (simp add: call_of_scalar)
  from assms(5) val have present: "arg_value_of ?args ?kwargs k \<noteq> PyNone" by simp
  have "dispatch_loop (check_dispatch C) ?args ?kwargs ?ck [] [] =
          (case ?ctor ([v], ?ck) of
             Inl e \<Rightarrow> ([(k, [v], ?ck)], Inl e)
           | Inr chk \<Rightarrow> ([(k, [v], ?ck)], Inr [chk]))"
    using dispatch_loop_single [OF distinct_check_dispatch mem others present call, of "[]" "[]"]
    by (simp split: sum.splits)
  with Field_accepted [OF assms(1) acc]
  have "Field C kws =
          ([(k, [v], ?ck)],
           (case ?ctor ([v], ?ck) of
              Inl e \<Rightarrow> Inl e
            | Inr check \<Rightarrow> Inr (FieldInfo_init (locals_of kws) [check])))"
    by (simp split: sum.splits)
  then show ?thesis
    by (simp only: shared_options_eq checks_init) simp
qed


theorem Field_single_scalar_witness:
  "distinct (map fst [(''isin'', PyList [PyInt 1, PyInt 2]), (''ignore_na'', PyBool False),
                      (''n_failure_cases'', PyInt 3), (''nullable'', PyBool True),
                      (''approx'', PyNone)])
   \<and> list_all (\<lambda>n. n \<in> set param_names
                  \<or> n \<in> set (map fst (check_dispatch (recording_Check [(''approx'', custom_check ''approx'')]))))
        (map fst [(''isin'', PyList [PyInt 1, PyInt 2]), (''ignore_na'', PyBool False),
                  (''n_failure_cases'', PyInt 3), (''nullable'', PyBool True),
                  (''approx'', PyNone)])
   \<and> list_all (\<lambda>n. n = ''isin''
                  \<or> dict_get [(''isin'', PyList [PyInt 1, PyInt 2]), (''ignore_na'', PyBool False),
                               (''n_failure_cases'', PyInt 3), (''nullable'', PyBool True),
                               (''approx'', PyNone)] n PyNone = PyNone)
        (map fst (check_dispatch (recording_Check [(''approx'', custom_check ''approx'')])))
   \<and> list_all (\<lambda>n. \<not> shadows_local n)
        (map fst (REGISTERED_CUSTOM_CHECKS (recording_Check [(''approx'', custom_check ''approx'')])))
   \<and> fst (Field (recording_Check [(''approx'', custom_check ''approx'')])
        [(''isin'', PyList [PyInt 1, PyInt 2]), (''ignore_na'', PyBool False),
         (''n_failure_cases'', PyInt 3), (''nullable'', PyBool True), (''approx'', PyNone)])
       = [(''isin'', [PyList [PyInt 1, PyInt 2]],
           [(''ignore_na'', PyBool False), (''raise_warning'', PyBool False),
            (''n_failure_cases'', PyInt 3)])]
   \<and> map_sum id checks
        (snd (Field (recording_Check [(''approx'', custom_check ''approx'')])
          [(''isin'', PyList [PyInt 1, PyInt 2]), (''ignore_na'', PyBool False),
           (''n_failure_cases'', PyInt 3), (''nullable'', PyBool True), (''approx'', PyNone)]))
       = Inr (Some [Builtin Check_isin ([PyList [PyInt 1, PyInt 2]],
           [(''ignore_na'', PyBool False), (''raise_warning'', PyBool False),
            (''n_failure_cases'', PyInt 3)])])
   \<and> Field (range_Check []) [(''between'', PyInt 5), (''raise_warning'', PyBool True)]
       = ([(''between'', [PyInt 5],
            [(''ignore_na'', PyBool True), (''raise_warning'', PyBool True),
             (''n_failure_cases'', PyNone)])],
          Inl (TypeError ''missing 1 required positional argument''))"
proof -
  let ?C = "recording_Check [(''approx'', custom_check ''approx'')]"
  let ?kws = "[(''isin'', PyList [PyInt 1, PyInt 2]), (''ignore_na'', PyBool False),
               (''n_failure_cases'', PyInt 3), (''nullable'', PyBool True), (''approx'', PyNone)]"
  let ?so = "[(''ignore_na'', PyBool False), (''raise_warning'', PyBool False),
              (''n_failure_cases'', PyInt 3)]"
  let ?R = "range_Check [] :: check_obj Check"
  let ?kws2 = "[(''between'', PyInt 5), (''raise_warning'', PyBool True)]"
  have h1: "distinct (map fst ?kws)" by simp
  have h2: "\<forall>n \<in> set (map fst ?kws). n \<in> set param_names \<or> n \<in> set (map fst (check_dispatch ?C))"
    by code_simp
  have h3: "(''isin'', Check_isin) \<in> set
           [(''eq'', Check_equal_to), (''ne'', Check_not_equal_to), (''gt'', Check_greater_than),
            (''ge'', Check_greater_than_or_equal_to), (''lt'', Check_less_than),
            (''le'', Check_less_than_or_equal_to), (''in_range'', Check_in_range),
            (''between'', Check_between), (''isin'', Check_isin), (''notin'', Check_notin),
            (''str_contains'', Check_str_contains), (''str_endswith'', Check_str_endswith),
            (''str_matches'', Check_str_matches), (''str_length'', Check_str_length),
            (''str_startswith'', Check_str_startswith),
            (''unique_values_eq'', Check_unique_values_eq)]"
    by simp
  have h4: "map_of ?kws ''isin'' = Some (PyList [PyInt 1, PyInt 2])" by simp
  have h5: "PyList [PyInt 1, PyInt 2] \<noteq> PyNone" and h6: "\<not> is_dict (PyList [PyInt 1, PyInt 2])"
    by simp_all
  have h7: "\<forall>n \<in> set (map fst (check_dispatch ?C)). n \<noteq> ''isin'' \<longrightarrow> dict_get ?kws n PyNone = PyNone"
    by code_simp
  have h8: "distinct (map fst (REGISTERED_CUSTOM_CHECKS ?C))"
    by (simp add: recording_Check_def)
  have h9: "\<forall>n \<in> set (map fst (REGISTERED_CUSTOM_CHECKS ?C)). \<not> shadows_local n"
    by code_simp
  have ctor: "(case map_of (REGISTERED_CUSTOM_CHECKS ?C) ''isin'' of
                 Some f \<Rightarrow> f | None \<Rightarrow> classmethod ?C Check_isin)
              = (\<lambda>c. Inr (Builtin Check_isin c))"
    by (simp add: recording_Check_def)
  have opts: "dict_get ?kws ''ignore_na'' (PyBool True) = PyBool False"
    "dict_get ?kws ''raise_warning'' (PyBool False) = PyBool False"
    "dict_get ?kws ''n_failure_cases'' PyNone = PyInt 3"
    by (simp_all add: dict_get_def)
  have F: "Field ?C ?kws =
      ([(''isin'', [PyList [PyInt 1, PyInt 2]], ?so)],
       Inr (FieldInfo_init (locals_of ?kws) [Builtin Check_isin ([PyList [PyInt 1, PyInt 2]], ?so)]))"
    using Field_single_scalar [OF h1 h2 h3 h4 h5 h6 h7 h8 h9, THEN conjunct1]
    by (simp only: ctor opts sum.case)
  have a: "fst (Field ?C ?kws) = [(''isin'', [PyList [PyInt 1, PyInt 2]], ?so)]"
    by (simp only: F fst_conv)
  have b: "map_sum id checks (snd (Field ?C ?kws))
      = Inr (Some [Builtin Check_isin ([PyList [PyInt 1, PyInt 2]], ?so)])"
    by (simp add: F checks_init)
  have g1: "distinct (map fst ?kws2)" by simp
  have g2: "\<forall>n \<in> set (map fst ?kws2). n \<in> set param_names \<or> n \<in> set (map fst (check_dispatch ?R))"
    by code_simp
  have g3: "(''between'', Check_between) \<in> set
           [(''eq'', Check_equal_to), (''ne'', Check_not_equal_to), (''gt'', Check_greater_than),
            (''ge'', Check_greater_than_or_equal_to), (''lt'', Check_less_than),
            (''le'', Check_less_than_or_equal_to), (''in_range'', Check_in_range),
            (''between'', Check_between), (''isin'', Check_isin), (''notin'', Check_notin),
            (''str_contains'', Check_str_contains), (''str_endswith'', Check_str_endswith),
            (''str_matches'', Check_str_matches), (''str_length'', Check_str_length),
            (''str_startswith'', Check_str_startswith),
            (''unique_values_eq'', Check_unique_values_eq)]"
    by simp
  have g4: "map_of ?kws2 ''between'' = Some (PyInt 5)" by simp
  have g5: "PyInt 5 \<noteq> PyNone" and g6: "\<not> is_dict (PyInt 5)" by simp_all
  have g7: "\<forall>n \<in> set (map fst (check_dispatch ?R)). n \<noteq> ''between'' \<longrightarrow> dict_get ?kws2 n PyNone = PyNone"
    by code_simp
  have g8: "distinct (map fst (REGISTERED_CUSTOM_CHECKS ?R))"
    by (simp add: range_Check_def)
  have g9: "\<forall>n \<in> set (map fst (REGISTERED_CUSTOM_CHECKS ?R)). \<not> shadows_local n"
    by (simp add: range_Check_def)
  have opts2: "dict_get ?kws2 ''ignore_na'' (PyBool True) = PyBool True"
    "dict_get ?kws2 ''raise_warning'' (PyBool False) = PyBool True"
    "dict_get ?kws2 ''n_failure_cases'' PyNone = PyNone"
    by (simp_all add: dict_get_def)
  have ctor2: "(case map_of (REGISTERED_CUSTOM_CHECKS ?R) ''between'' of
                  Some f \<Rightarrow> f | None \<Rightarrow> classmethod ?R Check_between)
        ([PyInt 5], [(''ignore_na'', PyBool True), (''raise_warning'', PyBool True),
                     (''n_failure_cases'', PyNone)])
      = Inl (TypeError ''missing 1 required positional argument'')"
    by (simp add: range_Check_def has_both_bounds_def)
  have c: "Field ?R ?kws2
       = ([(''between'', [PyInt 5],
            [(''ignore_na'', PyBool True), (''raise_warning'', PyBool True),
             (''n_failure_cases'', PyNone)])],
          Inl (TypeError ''missing 1 required positional argument''))"
    using Field_single_scalar [OF g1 g2 g3 g4 g5 g6 g7 g8 g9, THEN conjunct1]
    by (simp only: opts2 ctor2 sum.case)
  from h2 have h2': "list_all (\<lambda>n. n \<in> set param_names \<or> n \<in> set (map fst (check_dispatch ?C)))
      (map fst ?kws)"
    by (simp only: list_all_iff)
  from h7 have h7': "list_all (\<lambda>n. n = ''isin'' \<or> dict_get ?kws n PyNone = PyNone)
      (map fst (check_dispatch ?C))"
    by (simp only: list_all_iff) blast
  from h9 have h9': "list_all (\<lambda>n. \<not> shadows_local n) (map fst (REGISTERED_CUSTOM_CHECKS ?C))"
    by (simp only: list_all_iff)
  from h1 h2' h7' h9' a b c show ?thesis by (intro conjI)
qed

theorem Field_single_scalar_counterexample:
  "Field (range_Check []) [(''in_range'', PyInt 5)]
     = ([(''in_range'', [PyInt 5], default_options)],
        Inl (TypeError ''missing 1 required positional argument''))
   \<and> map_of [(''gt'', PyInt 5)] ''regex'' = None
   \<and> fst (Field (recording_Check [(''regex'', custom_check ''regex'')]) [(''gt'', PyInt 5)])
       = [(''gt'', [PyInt 5], default_options), (''regex'', [PyBool False], default_options)]
   \<and> map_sum id checks
        (snd (Field (recording_Check [(''regex'', custom_check ''regex'')]) [(''gt'', PyInt 5)]))
       = Inr (Some [Builtin Check_greater_than ([PyInt 5], default_options),
                    Custom ''regex'' ([PyBool False], default_options)])"
  by code_simp

subsection \<open>Dictionary values\<close>

text \<open>
  C4, as amended. Let a fixed constraint keyword \<open>k\<close> be set to a dictionary \<open>d\<close>, and
  let \<open>so\<close> be the shared options of the call (the caller's \<open>ignore_na\<close>,
  \<open>raise_warning\<close>, \<open>n_failure_cases\<close>, else \<open>True\<close>, \<open>False\<close>, \<open>None\<close>).

  \<^item> Whenever a constructor is invoked for \<open>k\<close>, the keys of \<open>d\<close> are strings, none of
    them is given twice or is the name of a shared option, and the call has no
    positional argument and the entries of \<open>d\<close> followed by \<open>so\<close> as named arguments.
  \<^item> When \<open>Field\<close> returns a descriptor, that invocation has been made, of the
    constructor the table holds for \<open>k\<close> (the built-in constructor listed for \<open>k\<close>, or
    the custom check registered under that name), and the check it returned is among the
    descriptor's checks.
  \<^item> When \<open>d\<close> has a key that is not a string, or a key that is the name of a shared
    option, no constructor is invoked for \<open>k\<close> and \<open>Field\<close> returns no descriptor: it
    raises a \<open>TypeError\<close>, unless the call was ended by the \<open>SchemaInitError\<close> of an
    unknown keyword or by an exception that an invoked constructor raised.
\<close>

theorem Field_mapping_value:
  assumes "Field C kws = (tr, r)"
    and "(k, m) \<in> set
           [(''eq'', Check_equal_to), (''ne'', Check_not_equal_to), (''gt'', Check_greater_than),
            (''ge'', Check_greater_than_or_equal_to), (''lt'', Check_less_than),
            (''le'', Check_less_than_or_equal_to), (''in_range'', Check_in_range),
            (''between'', Check_between), (''isin'', Check_isin), (''notin'', Check_notin),
            (''str_contains'', Check_str_contains), (''str_endswith'', Check_str_endswith),
            (''str_matches'', Check_str_matches), (''str_length'', Check_str_length),
            (''str_startswith'', Check_str_startswith),
            (''unique_values_eq'', Check_unique_values_eq)]"
    and "map_of kws k = Some (PyDict d)"
    and "distinct (map fst (REGISTERED_CUSTOM_CHECKS C))"
    and "so = [(''ignore_na'', dict_get kws ''ignore_na'' (PyBool True)),
               (''raise_warning'', dict_get kws ''raise_warning'' (PyBool False)),
               (''n_failure_cases'', dict_get kws ''n_failure_cases'' PyNone)]"
    and "check_constructor =
           (case map_of (REGISTERED_CUSTOM_CHECKS C) k of
              Some f \<Rightarrow> f | None \<Rightarrow> classmethod C m)"
  shows "(\<forall>c. (k, c) \<in> set tr \<longrightarrow>
            (\<exists>named. str_keys d = Some named
               \<and> distinct (map fst (named @ so))
               \<and> c = ([], named @ so)))
    \<and> (\<forall>fi. r = Inr fi \<longrightarrow>
            (\<exists>named chk. str_keys d = Some named
               \<and> (k, ([], named @ so)) \<in> set tr
               \<and> check_constructor ([], named @ so) = Inr chk
               \<and> chk \<in> set (checks_list fi)))
    \<and> ((\<forall>named. str_keys d = Some named \<longrightarrow> \<not> distinct (map fst (named @ so))) \<longrightarrow>
          k \<notin> set (map fst tr)
          \<and> (\<exists>e. r = Inl e
                \<and> ((\<exists>msg. e = TypeError msg)
                   \<or> (\<exists>key. e = SchemaInitError (unknown_check_message key))
                   \<or> (\<exists>n c ctor. (n, c) \<in> set tr
                         \<and> map_of (check_dispatch C) n = Some ctor \<and> ctor c = Inl e))))"
proof -
  from assms(2) have km: "(k, m) \<in> set fixed_constraints"
    by (simp only: fixed_constraints_eq)
  then have kf: "k \<in> set fixed_names" by (rule fixed_constraints_name)
  from assms(5) have so: "so = shared_options kws"
    by (simp only: shared_options_eq)
  from check_dispatch_fixed_name [OF km assms(4)] assms(6)
  have table: "map_of (check_dispatch C) k = Some check_constructor" by simp
  from kf assms(3) have val: "arg_value kws k = PyDict d"
    by (simp add: arg_value_fixed dict_get_def)
  have shape: "\<exists>named. str_keys d = Some named
               \<and> distinct (map fst (named @ so))
               \<and> c = ([], named @ so)" if "(k, c) \<in> set tr" for c
  proof -
    from Field_invocations [OF assms(1)] that val
    have "call_of (PyDict d) (shared_options kws) = Inr c" by force
    then show ?thesis by (simp add: call_of_dict so)
  qed
  have made: "\<exists>named chk. str_keys d = Some named
               \<and> (k, ([], named @ so)) \<in> set tr
               \<and> check_constructor ([], named @ so) = Inr chk
               \<and> chk \<in> set (checks_list fi)" if "r = Inr fi" for fi
  proof -
    from assms(1) that have ret: "Field C kws = (tr, Inr fi)" by simp
    from Field_returns_trace [OF ret] have
      keys: "map fst tr = filter (\<lambda>n. arg_value kws n \<noteq> PyNone) (map fst (check_dispatch C))" and
      rel: "list_all2 (\<lambda>inv chk. \<exists>ctor. map_of (check_dispatch C) (fst inv) = Some ctor
                       \<and> ctor (snd inv) = Inr chk) tr (checks_list fi)"
      by simp_all
    from kf val
    have "k \<in> set (filter (\<lambda>n. arg_value kws n \<noteq> PyNone) (map fst (check_dispatch C)))"
      using fixed_names_dispatch [of k C] by simp
    with keys have "k \<in> set (map fst tr)" by simp
    then obtain c where c: "(k, c) \<in> set tr" by auto
    from shape [OF c] obtain named where
      n: "str_keys d = Some named" "c = ([], named @ so)"
      by blast
    from list_all2_left_witness [OF rel c] table obtain chk where
      "check_constructor c = Inr chk" "chk \<in> set (checks_list fi)"
      by auto
    with n c show ?thesis by blast
  qed
  have refused: "k \<notin> set (map fst tr)
          \<and> (\<exists>e. r = Inl e
                \<and> ((\<exists>msg. e = TypeError msg)
                   \<or> (\<exists>key. e = SchemaInitError (unknown_check_message key))
                   \<or> (\<exists>n c ctor. (n, c) \<in> set tr
                         \<and> map_of (check_dispatch C) n = Some ctor \<and> ctor c = Inl e)))"
    if bad: "\<forall>named. str_keys d = Some named \<longrightarrow> \<not> distinct (map fst (named @ so))"
  proof -
    have none: "(k, c) \<notin> set tr" for c
      using shape [of c] bad by blast
    then have a: "k \<notin> set (map fst tr)" by force
    obtain e where e: "r = Inl e"
    proof (cases r)
      case (Inl e)
      then show ?thesis by (rule that)
    next
      case (Inr fi)
      from made [OF this] none show ?thesis by blast
    qed
    with assms(1) have "Field C kws = (tr, Inl e)" by simp
    from Field_raised [OF this] e a show ?thesis by blast
  qed
  from shape made refused show ?thesis by blast
qed


theorem Field_mapping_value_witness:
  "map_of [(''in_range'', PyDict [(PyStr ''min_value'', PyInt 0), (PyStr ''max_value'', PyInt 10)]),
           (''raise_warning'', PyBool True)] ''in_range''
     = Some (PyDict [(PyStr ''min_value'', PyInt 0), (PyStr ''max_value'', PyInt 10)])
   \<and> distinct (map fst (REGISTERED_CUSTOM_CHECKS (recording_Check [(''approx'', custom_check ''approx'')])))
   \<and> fst (Field (recording_Check [(''approx'', custom_check ''approx'')])
       [(''in_range'', PyDict [(PyStr ''min_value'', PyInt 0), (PyStr ''max_value'', PyInt 10)]),
        (''raise_warning'', PyBool True)])
       = [(''in_range'', [], [(''min_value'', PyInt 0), (''max_value'', PyInt 10),
            (''ignore_na'', PyBool True), (''raise_warning'', PyBool True),
            (''n_failure_cases'', PyNone)])]
   \<and> map_sum id checks_list
        (snd (Field (recording_Check [(''approx'', custom_check ''approx'')])
          [(''in_range'', PyDict [(PyStr ''min_value'', PyInt 0), (PyStr ''max_value'', PyInt 10)]),
           (''raise_warning'', PyBool True)]))
       = Inr [Builtin Check_in_range ([], [(''min_value'', PyInt 0), (''max_value'', PyInt 10),
            (''ignore_na'', PyBool True), (''raise_warning'', PyBool True),
            (''n_failure_cases'', PyNone)])]
   \<and> str_keys [(PyStr ''min_value'', PyInt 1), (PyStr ''n_failure_cases'', PyInt 5)]
       = Some [(''min_value'', PyInt 1), (''n_failure_cases'', PyInt 5)]
   \<and> ''str_length'' \<notin> set (map fst (fst (Field (recording_Check [])
         [(''str_length'', PyDict [(PyStr ''min_value'', PyInt 1), (PyStr ''n_failure_cases'', PyInt 5)])])))
   \<and> isl (snd (Field (recording_Check [])
         [(''str_length'', PyDict [(PyStr ''min_value'', PyInt 1), (PyStr ''n_failure_cases'', PyInt 5)])]))"
proof -
  let ?lit = "[(''eq'', Check_equal_to), (''ne'', Check_not_equal_to), (''gt'', Check_greater_than),
            (''ge'', Check_greater_than_or_equal_to), (''lt'', Check_less_than),
            (''le'', Check_less_than_or_equal_to), (''in_range'', Check_in_range),
            (''between'', Check_between), (''isin'', Check_isin), (''notin'', Check_notin),
            (''str_contains'', Check_str_contains), (''str_endswith'', Check_str_endswith),
            (''str_matches'', Check_str_matches), (''str_length'', Check_str_length),
            (''str_startswith'', Check_str_startswith),
            (''unique_values_eq'', Check_unique_values_eq)]"
  let ?d = "[(PyStr ''min_value'', PyInt 0), (PyStr ''max_value'', PyInt 10)]"
  let ?kws = "[(''in_range'', PyDict ?d), (''raise_warning'', PyBool True)]"
  let ?C = "recording_Check [(''approx'', custom_check ''approx'')]"
  let ?so = "[(''ignore_na'', PyBool True), (''raise_warning'', PyBool True),
              (''n_failure_cases'', PyNone)]"
  let ?call = "([], [(''min_value'', PyInt 0), (''max_value'', PyInt 10),
            (''ignore_na'', PyBool True), (''raise_warning'', PyBool True),
            (''n_failure_cases'', PyNone)]) :: call"
  have ok: "\<not> isl (snd (Field ?C ?kws))" by code_simp
  then obtain fi where fi: "snd (Field ?C ?kws) = Inr fi"
    by (cases "snd (Field ?C ?kws)") auto
  have h1: "Field ?C ?kws = (fst (Field ?C ?kws), snd (Field ?C ?kws))" by simp
  have h2: "(''in_range'', Check_in_range) \<in> set ?lit" by simp
  have h3: "map_of ?kws ''in_range'' = Some (PyDict ?d)" by simp
  have h4: "distinct (map fst (REGISTERED_CUSTOM_CHECKS ?C))"
    by (simp add: recording_Check_def)
  have h5: "?so = [(''ignore_na'', dict_get ?kws ''ignore_na'' (PyBool True)),
               (''raise_warning'', dict_get ?kws ''raise_warning'' (PyBool False)),
               (''n_failure_cases'', dict_get ?kws ''n_failure_cases'' PyNone)]"
    by (simp add: dict_get_def)
  have h6: "(\<lambda>c. Inr (Builtin Check_in_range c)) =
           (case map_of (REGISTERED_CUSTOM_CHECKS ?C) ''in_range'' of
              Some f \<Rightarrow> f | None \<Rightarrow> classmethod ?C Check_in_range)"
    by (simp add: recording_Check_def)
  have sk: "str_keys ?d = Some [(''min_value'', PyInt 0), (''max_value'', PyInt 10)]" by simp
  from Field_mapping_value [OF h1 h2 h3 h4 h5 h6, THEN conjunct2, THEN conjunct1] fi sk
  have mem: "(''in_range'', ?call) \<in> set (fst (Field ?C ?kws))"
    and chk: "Builtin Check_in_range ?call \<in> set (checks_list fi)"
    by auto
  have len: "length (fst (Field ?C ?kws)) = 1" by code_simp
  with mem have a: "fst (Field ?C ?kws) = [(''in_range'', ?call)]"
    by (cases "fst (Field ?C ?kws)") auto
  have "length (case snd (Field ?C ?kws) of Inl e \<Rightarrow> [] | Inr f \<Rightarrow> checks_list f) = 1"
    by code_simp
  with fi have "length (checks_list fi) = 1" by simp
  with chk have "checks_list fi = [Builtin Check_in_range ?call]"
    by (cases "checks_list fi") auto
  with fi have b: "map_sum id checks_list (snd (Field ?C ?kws)) = Inr [Builtin Check_in_range ?call]"
    by simp
  let ?d2 = "[(PyStr ''min_value'', PyInt 1), (PyStr ''n_failure_cases'', PyInt 5)]"
  let ?kws2 = "[(''str_length'', PyDict ?d2)]"
  let ?R = "recording_Check [] :: check_obj Check"
  let ?so2 = "[(''ignore_na'', PyBool True), (''raise_warning'', PyBool False),
               (''n_failure_cases'', PyNone)]"
  have g1: "Field ?R ?kws2 = (fst (Field ?R ?kws2), snd (Field ?R ?kws2))" by simp
  have g2: "(''str_length'', Check_str_length) \<in> set ?lit" by simp
  have g3: "map_of ?kws2 ''str_length'' = Some (PyDict ?d2)" by simp
  have g4: "distinct (map fst (REGISTERED_CUSTOM_CHECKS ?R))"
    by (simp add: recording_Check_def)
  have g5: "?so2 = [(''ignore_na'', dict_get ?kws2 ''ignore_na'' (PyBool True)),
               (''raise_warning'', dict_get ?kws2 ''raise_warning'' (PyBool False)),
               (''n_failure_cases'', dict_get ?kws2 ''n_failure_cases'' PyNone)]"
    by (simp add: dict_get_def)
  have g6: "(\<lambda>c. Inr (Builtin Check_str_length c)) =
           (case map_of (REGISTERED_CUSTOM_CHECKS ?R) ''str_length'' of
              Some f \<Rightarrow> f | None \<Rightarrow> classmethod ?R Check_str_length)"
    by (simp add: recording_Check_def)
  have sk2: "str_keys ?d2 = Some [(''min_value'', PyInt 1), (''n_failure_cases'', PyInt 5)]"
    by simp
  have bad: "\<forall>named. str_keys ?d2 = Some named \<longrightarrow> \<not> distinct (map fst (named @ ?so2))"
    by (simp add: sk2)
  from Field_mapping_value [OF g1 g2 g3 g4 g5 g6, THEN conjunct2, THEN conjunct2] bad
  have c: "''str_length'' \<notin> set (map fst (fst (Field ?R ?kws2)))"
    and e: "isl (snd (Field ?R ?kws2))"
    by auto
  from h3 h4 a b sk2 c e show ?thesis by (intro conjI)
qed

theorem Field_mapping_value_counterexample:
  "(''in_range'', Check_in_range) \<in> set fixed_constraints
   \<and> Field (recording_Check [])
       [(''in_range'', PyDict [(PyStr ''min_value'', PyInt 0), (PyStr ''max_value'', PyInt 10),
                               (PyStr ''ignore_na'', PyBool False)])]
     = ([], Inl (TypeError ''got multiple values for keyword argument''))"
  by code_simp

subsection \<open>Absent values\<close>

text \<open>
  C10, as amended. Let \<open>k\<close> be a key of the dispatch table that is not the name of
  another local variable of \<open>Field\<close>, and take as its value what the caller gave for
  \<open>k\<close>, \<open>None\<close> when the caller gave nothing. When the value is \<open>None\<close>, no constructor is
  invoked for \<open>k\<close>, in any call. In a call that returns a descriptor, there is exactly
  one invocation for \<open>k\<close> when the value is anything else, and the checks of the
  descriptor are the results of the invocations, one for each, in the same order.
\<close>

theorem Field_only_None_absent:
  assumes "Field C kws = (tr, r)"
    and "k \<in> set (map fst (check_dispatch C))"
    and "\<not> shadows_local k"
  shows "(dict_get kws k PyNone = PyNone \<longrightarrow> k \<notin> set (map fst tr))
    \<and> (\<forall>fi. r = Inr fi \<longrightarrow>
          length (filter (\<lambda>inv. fst inv = k) tr) = (if dict_get kws k PyNone = PyNone then 0 else 1)
          \<and> list_all2 (\<lambda>inv chk. \<exists>ctor. map_of (check_dispatch C) (fst inv) = Some ctor
                           \<and> ctor (snd inv) = Inr chk) tr (checks_list fi))"
proof -
  from assms(3) have caller: "arg_value kws k = dict_get kws k PyNone"
    by (rule arg_value_caller)
  from Field_invocations [OF assms(1)] caller
  have skipped: "dict_get kws k PyNone = PyNone \<longrightarrow> k \<notin> set (map fst tr)"
    by auto
  have counted: "length (filter (\<lambda>inv. fst inv = k) tr)
            = (if dict_get kws k PyNone = PyNone then 0 else 1)
          \<and> list_all2 (\<lambda>inv chk. \<exists>ctor. map_of (check_dispatch C) (fst inv) = Some ctor
                           \<and> ctor (snd inv) = Inr chk) tr (checks_list fi)"
    if "r = Inr fi" for fi
  proof -
    from assms(1) that have ret: "Field C kws = (tr, Inr fi)" by simp
    from Field_returns_trace [OF ret] have
      keys: "map fst tr = filter (\<lambda>n. arg_value kws n \<noteq> PyNone) (map fst (check_dispatch C))" and
      rel: "list_all2 (\<lambda>inv chk. \<exists>ctor. map_of (check_dispatch C) (fst inv) = Some ctor
                       \<and> ctor (snd inv) = Inr chk) tr (checks_list fi)"
      by simp_all
    have "length (filter (\<lambda>inv. fst inv = k) tr) = length (filter (\<lambda>n. n = k) (map fst tr))"
      by (simp add: filter_map comp_def)
    also have "\<dots> = (if arg_value kws k = PyNone then 0 else 1)"
      using assms(2) by (simp only: keys count_distinct_filter [OF distinct_check_dispatch]) simp
    finally show ?thesis using rel caller by simp
  qed
  from skipped counted show ?thesis by blast
qed

theorem Field_only_None_absent_witness:
  "list_all (\<lambda>k. k \<in> set (map fst (check_dispatch (recording_Check [(''approx'', custom_check ''approx'')])))
               \<and> \<not> shadows_local k)
     [''eq'', ''gt'', ''str_contains'', ''isin'', ''in_range'', ''approx'', ''lt'', ''ne'']
   \<and> \<not> isl (snd (Field (recording_Check [(''approx'', custom_check ''approx'')])
        [(''lt'', PyNone), (''in_range'', PyDict []), (''isin'', PyList []),
         (''str_contains'', PyStr []), (''gt'', PyInt 0), (''eq'', PyBool False),
         (''approx'', PyInt 0)]))
   \<and> map (\<lambda>k. length (filter (\<lambda>inv. fst inv = k)
        (fst (Field (recording_Check [(''approx'', custom_check ''approx'')])
          [(''lt'', PyNone), (''in_range'', PyDict []), (''isin'', PyList []),
           (''str_contains'', PyStr []), (''gt'', PyInt 0), (''eq'', PyBool False),
           (''approx'', PyInt 0)]))))
        [''eq'', ''gt'', ''str_contains'', ''isin'', ''in_range'', ''approx'', ''lt'', ''ne'']
       = [1, 1, 1, 1, 1, 1, 0, 0]"
proof -
  let ?C = "recording_Check [(''approx'', custom_check ''approx'')]"
  let ?kws = "[(''lt'', PyNone), (''in_range'', PyDict []), (''isin'', PyList []),
         (''str_contains'', PyStr []), (''gt'', PyInt 0), (''eq'', PyBool False),
         (''approx'', PyInt 0)]"
  have h: "list_all (\<lambda>k. k \<in> set (map fst (check_dispatch ?C)) \<and> \<not> shadows_local k)
     [''eq'', ''gt'', ''str_contains'', ''isin'', ''in_range'', ''approx'', ''lt'', ''ne'']"
    by code_simp
  have ok: "\<not> isl (snd (Field ?C ?kws))" by code_simp
  then obtain fi where r: "Field ?C ?kws = (fst (Field ?C ?kws), Inr fi)"
    by (cases "snd (Field ?C ?kws)") (auto simp: prod_eq_iff)
  have v: "dict_get ?kws ''eq'' PyNone \<noteq> PyNone" "dict_get ?kws ''gt'' PyNone \<noteq> PyNone"
    "dict_get ?kws ''str_contains'' PyNone \<noteq> PyNone" "dict_get ?kws ''isin'' PyNone \<noteq> PyNone"
    "dict_get ?kws ''in_range'' PyNone \<noteq> PyNone" "dict_get ?kws ''approx'' PyNone \<noteq> PyNone"
    "dict_get ?kws ''lt'' PyNone = PyNone" "dict_get ?kws ''ne'' PyNone = PyNone"
    by (simp_all add: dict_get_def)
  from h have m: "''eq'' \<in> set (map fst (check_dispatch ?C))"
    "''gt'' \<in> set (map fst (check_dispatch ?C))"
    "''str_contains'' \<in> set (map fst (check_dispatch ?C))"
    "''isin'' \<in> set (map fst (check_dispatch ?C))"
    "''in_range'' \<in> set (map fst (check_dispatch ?C))"
    "''approx'' \<in> set (map fst (check_dispatch ?C))"
    "''lt'' \<in> set (map fst (check_dispatch ?C))"
    "''ne'' \<in> set (map fst (check_dispatch ?C))"
    by simp_all
  from h have s: "\<not> shadows_local ''eq''" "\<not> shadows_local ''gt''"
    "\<not> shadows_local ''str_contains''" "\<not> shadows_local ''isin''"
    "\<not> shadows_local ''in_range''" "\<not> shadows_local ''approx''"
    "\<not> shadows_local ''lt''" "\<not> shadows_local ''ne''"
    by simp_all
  from Field_only_None_absent [OF r m(1) s(1)] Field_only_None_absent [OF r m(2) s(2)]
    Field_only_None_absent [OF r m(3) s(3)] Field_only_None_absent [OF r m(4) s(4)]
    Field_only_None_absent [OF r m(5) s(5)] Field_only_None_absent [OF r m(6) s(6)]
    Field_only_None_absent [OF r m(7) s(7)] Field_only_None_absent [OF r m(8) s(8)] v
  have c: "map (\<lambda>k. length (filter (\<lambda>inv. fst inv = k) (fst (Field ?C ?kws))))
        [''eq'', ''gt'', ''str_contains'', ''isin'', ''in_range'', ''approx'', ''lt'', ''ne'']
       = [1, 1, 1, 1, 1, 1, 0, 0]"
    by simp
  from h ok c show ?thesis by (intro conjI)
qed

theorem Field_only_None_absent_counterexample:
  "''isin'' \<in> set (map fst (check_dispatch (recording_Check [])))
   \<and> PyDict [(PyInt 1, PyStr ''a'')] \<noteq> PyNone
   \<and> Field (recording_Check []) [(''isin'', PyDict [(PyInt 1, PyStr ''a'')])]
        = ([], Inl (TypeError ''keywords must be strings''))
   \<and> ''kwargs'' \<in> set (map fst (check_dispatch (recording_Check [(''kwargs'', custom_check ''kwargs'')])))
   \<and> fst (Field (recording_Check [(''kwargs'', custom_check ''kwargs'')]) [(''kwargs'', PyNone)])
        = [(''kwargs'', [], (''kwargs'', PyNone) # default_options)]"
  by code_simp

subsection \<open>The registry at the time of the call\<close>

text \<open>
  C9, as amended. The dispatch table of a call is computed from the check class as it
  is at that call: it is the fixed mapping of the sixteen keywords to the built-in
  constructors, extended with the registry as it then is (a registered name that is a
  fixed keyword takes the place of the built-in constructor; a name registered now is
  in the table of the next call). A name the registry maps to a constructor at the time
  of the call is therefore a key of the table with that constructor and is not rejected
  as unknown. When it is not the name of another local variable of \<open>Field\<close>, the caller
  gives it a value other than \<open>None\<close> and the call returns a descriptor, that
  constructor has been invoked for it and its check is among the descriptor's checks.
\<close>

theorem check_dispatch_reads_registry:
  assumes "distinct (map fst (REGISTERED_CUSTOM_CHECKS C))"
    and "map_of (REGISTERED_CUSTOM_CHECKS C) n = Some f"
    and "Field C kws = (tr, r)"
  shows "(\<forall>a. map_of (check_dispatch C) a =
            (case map_of (REGISTERED_CUSTOM_CHECKS C) a of
               Some g \<Rightarrow> Some g
             | None \<Rightarrow>
                 map_option (classmethod C)
                   (map_of
                     [(''eq'', Check_equal_to), (''ne'', Check_not_equal_to),
                      (''gt'', Check_greater_than), (''ge'', Check_greater_than_or_equal_to),
                      (''lt'', Check_less_than), (''le'', Check_less_than_or_equal_to),
                      (''in_range'', Check_in_range), (''between'', Check_between),
                      (''isin'', Check_isin), (''notin'', Check_notin),
                      (''str_contains'', Check_str_contains),
                      (''str_endswith'', Check_str_endswith),
                      (''str_matches'', Check_str_matches),
                      (''str_length'', Check_str_length),
                      (''str_startswith'', Check_str_startswith),
                      (''unique_values_eq'', Check_unique_values_eq)] a)))
    \<and> (\<forall>a g. map_of (check_dispatch
                 (C\<lparr>REGISTERED_CUSTOM_CHECKS := AList.update a g (REGISTERED_CUSTOM_CHECKS C)\<rparr>)) a
            = Some g)
    \<and> map_of (check_dispatch C) n = Some f
    \<and> (tr, r) \<noteq> ([], Inl (SchemaInitError (unknown_check_message n)))
    \<and> (\<not> shadows_local n \<longrightarrow>
          (\<forall>fi. r = Inr fi \<and> dict_get kws n PyNone \<noteq> PyNone \<longrightarrow>
             (\<exists>c chk. (n, c) \<in> set tr \<and> f c = Inr chk \<and> chk \<in> set (checks_list fi))))"
proof -
  have whole: "map_of (check_dispatch C) a =
            (case map_of (REGISTERED_CUSTOM_CHECKS C) a of
               Some g \<Rightarrow> Some g
             | None \<Rightarrow> map_option (classmethod C) (map_of fixed_constraints a))" for a
    by (rule map_of_check_dispatch [OF assms(1)])
  have later: "map_of (check_dispatch
                 (C\<lparr>REGISTERED_CUSTOM_CHECKS := AList.update a g (REGISTERED_CUSTOM_CHECKS C)\<rparr>)) a
            = Some g" for a g
  proof -
    let ?C' = "C\<lparr>REGISTERED_CUSTOM_CHECKS := AList.update a g (REGISTERED_CUSTOM_CHECKS C)\<rparr>"
    from assms(1) have "distinct (map fst (REGISTERED_CUSTOM_CHECKS ?C'))"
      by (simp add: distinct_update)
    from map_of_check_dispatch [OF this, of a] show ?thesis
      by (simp add: update_conv')
  qed
  from assms(2) whole [of n] have table: "map_of (check_dispatch C) n = Some f"
    by simp
  then have "(n, f) \<in> set (check_dispatch C)"
    by (rule map_of_SomeD)
  then have key: "n \<in> set (map fst (check_dispatch C))"
    by force
  have recognised: "(tr, r) \<noteq> ([], Inl (SchemaInitError (unknown_check_message n)))"
  proof
    assume bad: "(tr, r) = ([], Inl (SchemaInitError (unknown_check_message n)))"
    with assms(3) have F: "Field C kws = ([], Inl (SchemaInitError (unknown_check_message n)))"
      by simp
    then have d: "distinct (map fst kws)"
      by (auto simp: Field_def split: if_splits)
    show False
    proof (cases "validate_kwargs (check_dispatch C) (kwargs_of kws)")
      case None
      obtain tr0 r0 where loop:
        "dispatch_loop (check_dispatch C) (locals_of kws) (kwargs_of kws) (shared_options kws) [] []
           = (tr0, r0)"
        by (cases "dispatch_loop (check_dispatch C) (locals_of kws) (kwargs_of kws)
                     (shared_options kws) [] []")
      with F d None have "tr0 = []" "r0 = Inl (SchemaInitError (unknown_check_message n))"
        by (auto simp: Field_def Let_def split: sum.splits)
      with loop dispatch_loop_error_origin show False by blast
    next
      case (Some e)
      then have "\<not> fst ` set (kwargs_of kws) \<subseteq> fst ` set (check_dispatch C)"
        by (simp add: validate_kwargs_None [symmetric])
      from validate_kwargs_Some [OF this] Some obtain k0 where
        f: "List.find (\<lambda>k. k \<notin> fst ` set (check_dispatch C)) (map fst (kwargs_of kws)) = Some k0" and
        e: "e = SchemaInitError (unknown_check_message k0)"
        by auto
      from f have "k0 \<notin> fst ` set (check_dispatch C)"
        by (auto simp: find_Some_iff)
      moreover from F d Some e have "k0 = n"
        by (auto simp: Field_def Let_def dest: unknown_check_message_inject)
      ultimately show False using key by simp
    qed
  qed
  have dispatched: "\<exists>c chk. (n, c) \<in> set tr \<and> f c = Inr chk \<and> chk \<in> set (checks_list fi)"
    if "\<not> shadows_local n" and "r = Inr fi \<and> dict_get kws n PyNone \<noteq> PyNone" for fi
  proof -
    from that(1) have caller: "arg_value kws n = dict_get kws n PyNone"
      by (rule arg_value_caller)
    from assms(3) that(2) have ret: "Field C kws = (tr, Inr fi)" by simp
    from Field_returns_trace [OF ret] have
      keys: "map fst tr = filter (\<lambda>n. arg_value kws n \<noteq> PyNone) (map fst (check_dispatch C))" and
      rel: "list_all2 (\<lambda>inv chk. \<exists>ctor. map_of (check_dispatch C) (fst inv) = Some ctor
                       \<and> ctor (snd inv) = Inr chk) tr (checks_list fi)"
      by simp_all
    from key that(2) caller
    have "n \<in> set (filter (\<lambda>n. arg_value kws n \<noteq> PyNone) (map fst (check_dispatch C)))"
      by simp
    with keys have "n \<in> set (map fst tr)" by simp
    then obtain c where c: "(n, c) \<in> set tr" by auto
    from list_all2_left_witness [OF rel c] table obtain chk where
      "f c = Inr chk" "chk \<in> set (checks_list fi)"
      by auto
    with c show ?thesis by blast
  qed
  from whole later table recognised dispatched show ?thesis
    by (simp only: fixed_constraints_eq [symmetric]) blast
qed


theorem check_dispatch_reads_registry_witness:
  "Field (recording_Check []) [(''approx'', PyInt 1), (''gt'', PyInt 2)]
     = ([], Inl (SchemaInitError (unknown_check_message ''approx'')))
   \<and> distinct (map fst (REGISTERED_CUSTOM_CHECKS (recording_Check [(''approx'', custom_check ''approx'')])))
   \<and> map_of (REGISTERED_CUSTOM_CHECKS (recording_Check [(''approx'', custom_check ''approx'')])) ''approx''
        = Some (custom_check ''approx'')
   \<and> \<not> shadows_local ''approx''
   \<and> map_of (check_dispatch (recording_Check [(''approx'', custom_check ''approx'')])) ''approx''
        = Some (custom_check ''approx'')
   \<and> map_of (check_dispatch (recording_Check [(''approx'', custom_check ''approx'')])) ''gt''
        = Some (classmethod (recording_Check [(''approx'', custom_check ''approx'')]) Check_greater_than)
   \<and> fst (Field (recording_Check [(''approx'', custom_check ''approx'')])
             [(''approx'', PyInt 1), (''gt'', PyInt 2)])
        = [(''gt'', [PyInt 2], default_options), (''approx'', [PyInt 1], default_options)]
   \<and> map_sum id checks_list
        (snd (Field (recording_Check [(''approx'', custom_check ''approx'')])
               [(''approx'', PyInt 1), (''gt'', PyInt 2)]))
        = Inr [Builtin Check_greater_than ([PyInt 2], default_options),
               Custom ''approx'' ([PyInt 1], default_options)]"
proof -
  let ?C = "recording_Check [(''approx'', custom_check ''approx'')]"
  let ?kws = "[(''approx'', PyInt 1), (''gt'', PyInt 2)]"
  have before: "Field (recording_Check []) ?kws
     = ([], Inl (SchemaInitError (unknown_check_message ''approx'')))"
    by code_simp
  have h1: "distinct (map fst (REGISTERED_CUSTOM_CHECKS ?C))"
    by (simp add: recording_Check_def)
  have h2: "map_of (REGISTERED_CUSTOM_CHECKS ?C) ''approx'' = Some (custom_check ''approx'')"
    by (simp add: recording_Check_def)
  have h3: "Field ?C ?kws = (fst (Field ?C ?kws), snd (Field ?C ?kws))" by simp
  have ns: "\<not> shadows_local ''approx''" by code_simp
  note r = check_dispatch_reads_registry [OF h1 h2 h3]
  from r have a: "map_of (check_dispatch ?C) ''approx'' = Some (custom_check ''approx'')"
    by blast
  from r have "map_of (check_dispatch ?C) ''gt'' =
            (case map_of (REGISTERED_CUSTOM_CHECKS ?C) ''gt'' of
               Some g \<Rightarrow> Some g
             | None \<Rightarrow>
                 map_option (classmethod ?C)
                   (map_of
                     [(''eq'', Check_equal_to), (''ne'', Check_not_equal_to),
                      (''gt'', Check_greater_than), (''ge'', Check_greater_than_or_equal_to),
                      (''lt'', Check_less_than), (''le'', Check_less_than_or_equal_to),
                      (''in_range'', Check_in_range), (''between'', Check_between),
                      (''isin'', Check_isin), (''notin'', Check_notin),
                      (''str_contains'', Check_str_contains),
                      (''str_endswith'', Check_str_endswith),
                      (''str_matches'', Check_str_matches),
                      (''str_length'', Check_str_length),
                      (''str_startswith'', Check_str_startswith),
                      (''unique_values_eq'', Check_unique_values_eq)] ''gt''))"
    by blast
  then have g: "map_of (check_dispatch ?C) ''gt'' = Some (classmethod ?C Check_greater_than)"
    by (simp add: recording_Check_def)
  have b: "fst (Field ?C ?kws)
        = [(''gt'', [PyInt 2], default_options), (''approx'', [PyInt 1], default_options)]"
    by code_simp
  have c: "map_sum id checks_list (snd (Field ?C ?kws))
             = Inr [Builtin Check_greater_than ([PyInt 2], default_options),
                    Custom ''approx'' ([PyInt 1], default_options)]"
    by code_simp
  from before h1 h2 ns a g b c show ?thesis by (intro conjI)
qed

theorem check_dispatch_reads_registry_counterexample:
  "''approx'' \<in> set (map fst (REGISTERED_CUSTOM_CHECKS (recording_Check [(''approx'', custom_check ''approx'')])))
   \<and> Field (recording_Check [(''approx'', custom_check ''approx'')])
        [(''approx'', PyDict [(PyInt 1, PyStr ''a'')])]
      = ([], Inl (TypeError ''keywords must be strings''))
   \<and> ''check_kwargs'' \<in> set (map fst (REGISTERED_CUSTOM_CHECKS
         (recording_Check [(''check_kwargs'', custom_check ''check_kwargs'')])))
   \<and> Field (recording_Check [(''check_kwargs'', custom_check ''check_kwargs'')])
        [(''check_kwargs'', PyInt 1)]
      = ([], Inl (TypeError ''got multiple values for keyword argument''))
   \<and> Field (recording_Check [(''check_kwargs'', custom_check ''check_kwargs'')]) []
      = ([], Inl (TypeError ''got multiple values for keyword argument''))"
  by code_simp

subsection \<open>No constraint keyword\<close>

text \<open>
  When no custom check is registered under the name of another local variable of
  \<open>Field\<close>, a call that gives no key of the dispatch table a value other than \<open>None\<close>
  invokes no constructor and constructs the descriptor with \<open>checks = None\<close>, not with
  the empty list.
\<close>

lemma Field_no_constraints:
  assumes "distinct (map fst kws)"
    and "\<forall>n \<in> set (map fst kws). n \<in> set param_names \<or> n \<in> set (map fst (check_dispatch C))"
    and "\<forall>n \<in> set (map fst (check_dispatch C)). dict_get kws n PyNone = PyNone"
    and "\<forall>n \<in> set (map fst (REGISTERED_CUSTOM_CHECKS C)). \<not> shadows_local n"
  shows "Field C kws = ([], Inr (FieldInfo_init (locals_of kws) []))
    \<and> checks (FieldInfo_init (locals_of kws) [] :: 'c FieldInfo) = None"
proof -
  from assms(2) have acc: "set (map fst (kwargs_of kws)) \<subseteq> set (map fst (check_dispatch C))"
    by (auto simp: kwargs_of_def)
  have "\<forall>n \<in> fst ` set (check_dispatch C).
          arg_value_of (locals_of kws) (kwargs_of kws) n = PyNone"
  proof
    fix n assume "n \<in> fst ` set (check_dispatch C)"
    then have n: "n \<in> set (map fst (check_dispatch C))" by simp
    from table_keys_not_shadow [OF assms(4) n]
    have "arg_value kws n = dict_get kws n PyNone" by (rule arg_value_caller)
    moreover from assms(3) n have "dict_get kws n PyNone = PyNone" by blast
    ultimately show "arg_value_of (locals_of kws) (kwargs_of kws) n = PyNone"
      by (simp add: arg_value_def)
  qed
  then have "dispatch_loop (check_dispatch C) (locals_of kws) (kwargs_of kws)
      (shared_options kws) [] [] = ([], Inr [])"
    by (rule dispatch_loop_absent)
  with Field_accepted [OF assms(1) acc] show ?thesis
    by (simp add: checks_init)
qed

text \<open>
  C5. A call that sets no constraint keyword should invoke no constructor and leave
  \<open>checks\<close> at \<open>None\<close>. The code does otherwise when a custom check is registered under
  the name of a local variable of \<open>Field\<close> that is not a constraint keyword: with a check
  registered as \<open>regex\<close>, the call \<open>Field()\<close> sets no constraint keyword, yet the second
  loop finds the default \<open>False\<close> of the parameter \<open>regex\<close> for the table key \<open>regex\<close>,
  invokes the custom constructor with it and hands the descriptor a list with that
  check.
\<close>

theorem Field_no_constraints_shadowed:
  "fst (Field (recording_Check [(''regex'', custom_check ''regex'')]) [])
     = [(''regex'', [PyBool False], default_options)]
   \<and> map_sum id checks (snd (Field (recording_Check [(''regex'', custom_check ''regex'')]) []))
     = Inr (Some [Custom ''regex'' ([PyBool False], default_options)])"
  by code_simp

end
